theory Spec2Isabelle
  imports Main
begin

section \<open>Provisioner node registry and key stores (provisioner\_main.c)\<close>

text \<open>
  Machine integers are natural numbers; an increment of a 16-bit variable is written with
  its wrap-around (\<open>mod 65536\<close>). A byte array is a list of bytes, and
  \<open>memcmp(a, b, n) == 0\<close> compares the first \<open>n\<close> bytes.

  A function of the source that returns \<open>int\<close> returns \<open>errno + 'a\<close> here: \<open>Inl e\<close> is
  the return value \<open>-e\<close>, \<open>Inr v\<close> is the return value 0 with \<open>v\<close> written through the
  output pointer. The global tables are passed in and returned. Where the source reads
  through a null pointer or outside an array, the model returns \<open>None\<close>: execution does
  not return.
\<close>

type_synonym u8 = nat
type_synonym u16 = nat
type_synonym u32 = nat

datatype errno = EIO | EINVAL | ENODEV | EEXIST | ENOMEM

definition memeq :: "nat \<Rightarrow> u8 list \<Rightarrow> u8 list \<Rightarrow> bool" where
  "memeq n a b = (take n a = take n b)"

definition BLE_MESH_ADDR_LEN :: nat where
  "BLE_MESH_ADDR_LEN = 6"

subsection \<open>Node table\<close>

record bt_mesh_addr =
  addr_type :: u8
  addr_val :: "u8 list"

record bt_mesh_node =
  node_addr :: bt_mesh_addr
  dev_uuid :: "u8 list"
  oob_info :: u16
  unicast_addr :: u16
  element_num :: u8
  node_net_idx :: u16
  node_flags :: u8
  iv_index :: u32
  dev_key :: "u8 list"

record bt_mesh_rpl =
  rpl_src :: u16
  rpl_old_iv :: bool
  rpl_seq :: u32

text \<open>
  The registry: \<open>mesh_nodes\<close> (a null pointer is \<open>None\<close>), the two counters and the
  replay protection list. \<open>ARRAY_SIZE(mesh_nodes)\<close> is the length of the list;
  \<open>CONFIG_BLE_MESH_MAX_PROV_NODES\<close> is the parameter \<open>P\<close> of the functions below.
  The message cache and the settings storage are written to, never read, by these
  functions and are not part of the state.
\<close>

record registry =
  mesh_nodes :: "bt_mesh_node option list"
  all_node_count :: u16
  prov_node_count :: u16
  rpl :: "bt_mesh_rpl list"

definition provisioner_node_count_inc :: "bool \<Rightarrow> registry \<Rightarrow> registry" where
  "provisioner_node_count_inc prov s =
     (let s1 = s\<lparr>all_node_count := (all_node_count s + 1) mod 65536\<rparr>
      in if prov then s1\<lparr>prov_node_count := (prov_node_count s1 + 1) mod 65536\<rparr> else s1)"

definition provisioner_node_count_dec :: "bool \<Rightarrow> registry \<Rightarrow> registry" where
  "provisioner_node_count_dec prov s =
     (let s1 = (if all_node_count s \<noteq> 0 then s\<lparr>all_node_count := all_node_count s - 1\<rparr> else s)
      in if prov
         then (if prov_node_count s1 \<noteq> 0
               then s1\<lparr>prov_node_count := prov_node_count s1 - 1\<rparr> else s1)
         else s1)"

text \<open>
  \<open>provisioner_store_node\<close>: the first null slot of the partition takes the node.
  \<open>alloc_ok\<close> says whether \<open>osi_calloc\<close> returns memory. The loop reads
  \<open>mesh_nodes[i]\<close> for \<open>i\<close> from \<open>min\<close> up to \<open>max\<close>: it stops at the first index
  that is null, or that lies outside the array.
\<close>

definition provisioner_store_node ::
  "nat \<Rightarrow> bt_mesh_node \<Rightarrow> bool \<Rightarrow> bool \<Rightarrow> registry \<Rightarrow> ((errno + nat) \<times> registry) option" where
  "provisioner_store_node P node prov alloc_ok s =
     (let lo = (if prov then 0 else P mod 65536);
          hi = (if prov then P mod 65536 else length (mesh_nodes s) mod 65536)
      in case find (\<lambda>i. length (mesh_nodes s) \<le> i \<or> mesh_nodes s ! i = None) [lo..<hi] of
           None \<Rightarrow> Some (Inl ENOMEM, s)
         | Some i \<Rightarrow>
             if length (mesh_nodes s) \<le> i then None
             else if \<not> alloc_ok then Some (Inl ENOMEM, s)
             else Some (Inr i,
                    provisioner_node_count_inc prov
                      (s\<lparr>mesh_nodes := (mesh_nodes s)[i := Some node]\<rparr>)))"

definition rpl_zero :: bt_mesh_rpl where
  "rpl_zero = \<lparr>rpl_src = 0, rpl_old_iv = False, rpl_seq = 0\<rparr>"

definition provisioner_reset_node :: "nat \<Rightarrow> nat \<Rightarrow> registry \<Rightarrow> ((errno + unit) \<times> registry) option" where
  "provisioner_reset_node P node_index s =
     (if length (mesh_nodes s) \<le> node_index then None
      else case mesh_nodes s ! node_index of
             None \<Rightarrow> Some (Inr (), s)
           | Some node \<Rightarrow>
               (let s1 = s\<lparr>rpl := map (\<lambda>r. if unicast_addr node \<le> rpl_src r \<and>
                                               rpl_src r < unicast_addr node + element_num node
                                            then rpl_zero else r) (rpl s)\<rparr>;
                    is_prov = (node_index < P);
                    s2 = s1\<lparr>mesh_nodes := (mesh_nodes s1)[node_index := None]\<rparr>
                in Some (Inr (), provisioner_node_count_dec is_prov s2)))"

text \<open>
  The two searches run \<open>i\<close> from 0 up to \<open>CONFIG_BLE_MESH_MAX_PROV_NODES\<close> and
  return at the first live node that matches.
\<close>

definition find_reset ::
  "nat \<Rightarrow> (bt_mesh_node \<Rightarrow> bool) \<Rightarrow> bool \<Rightarrow> registry \<Rightarrow> (bool \<times> registry) option" where
  "find_reset P matches reset s =
     (case find (\<lambda>i. length (mesh_nodes s) \<le> i \<or>
                     (case mesh_nodes s ! i of None \<Rightarrow> False | Some n \<Rightarrow> matches n)) [0..<P] of
        None \<Rightarrow> Some (False, s)
      | Some i \<Rightarrow>
          if length (mesh_nodes s) \<le> i then None
          else if reset
               then (case provisioner_reset_node P i s of
                       None \<Rightarrow> None
                     | Some (_, s') \<Rightarrow> Some (True, s'))
               else Some (True, s))"

definition uuid_matches :: "u8 list \<Rightarrow> bt_mesh_node \<Rightarrow> bool" where
  "uuid_matches uuid n = memeq 16 (dev_uuid n) uuid"

definition addr_matches :: "bt_mesh_addr \<Rightarrow> bt_mesh_node \<Rightarrow> bool" where
  "addr_matches addr n =
     (memeq BLE_MESH_ADDR_LEN (addr_val (node_addr n)) (addr_val addr) \<and>
      addr_type (node_addr n) = addr_type addr)"

definition provisioner_find_reset_node_with_uuid ::
  "nat \<Rightarrow> u8 list \<Rightarrow> bool \<Rightarrow> registry \<Rightarrow> (bool \<times> registry) option" where
  "provisioner_find_reset_node_with_uuid P uuid reset s =
     find_reset P (uuid_matches uuid) reset s"

definition provisioner_find_reset_node_with_addr ::
  "nat \<Rightarrow> bt_mesh_addr \<Rightarrow> bool \<Rightarrow> registry \<Rightarrow> (bool \<times> registry) option" where
  "provisioner_find_reset_node_with_addr P addr reset s =
     find_reset P (addr_matches addr) reset s"

text \<open>Sequences of store and reset calls, from the zero-initialised registry.\<close>

datatype node_op = Store bt_mesh_node bool bool | Reset nat

fun apply_node_op :: "nat \<Rightarrow> node_op \<Rightarrow> registry \<Rightarrow> registry option" where
  "apply_node_op P (Store node prov alloc_ok) s =
     map_option snd (provisioner_store_node P node prov alloc_ok s)"
| "apply_node_op P (Reset i) s = map_option snd (provisioner_reset_node P i s)"

fun run_node_ops :: "nat \<Rightarrow> node_op list \<Rightarrow> registry \<Rightarrow> registry option" where
  "run_node_ops P [] s = Some s"
| "run_node_ops P (x # xs) s =
     (case apply_node_op P x s of None \<Rightarrow> None | Some s' \<Rightarrow> run_node_ops P xs s')"

definition registry_init :: "nat \<Rightarrow> bt_mesh_rpl list \<Rightarrow> registry" where
  "registry_init N r =
     \<lparr>mesh_nodes = replicate N None, all_node_count = 0, prov_node_count = 0, rpl = r\<rparr>"

definition occupied :: "'a option list \<Rightarrow> nat" where
  "occupied xs = length (filter (\<lambda>x. x \<noteq> None) xs)"

definition counts_ok :: "nat \<Rightarrow> registry \<Rightarrow> bool" where
  "counts_ok P s \<longleftrightarrow>
     all_node_count s = occupied (mesh_nodes s) \<and>
     prov_node_count s = occupied (take P (mesh_nodes s))"

definition op_in_range :: "nat \<Rightarrow> node_op \<Rightarrow> bool" where
  "op_in_range N x = (case x of Reset i \<Rightarrow> i < N | Store _ _ _ \<Rightarrow> True)"

subsection \<open>Key tables\<close>

text \<open>
  The declarations of the key structures and their constants are in headers outside this
  file; the fields below are the ones this file reads and writes, and the constants have
  the values of the Bluetooth Mesh profile.
\<close>

definition BLE_MESH_KEY_UNUSED :: u16 where
  "BLE_MESH_KEY_UNUSED = 0xFFFF"

definition BLE_MESH_ADDR_UNASSIGNED :: u16 where
  "BLE_MESH_ADDR_UNASSIGNED = 0"

definition BLE_MESH_KR_NORMAL :: u8 where
  "BLE_MESH_KR_NORMAL = 0"

definition BLE_MESH_NODE_IDENTITY_NOT_SUPPORTED :: u8 where
  "BLE_MESH_NODE_IDENTITY_NOT_SUPPORTED = 2"

record bt_mesh_subnet_keys =
  sk_net :: "u8 list"
  sk_nid :: u8

record bt_mesh_subnet =
  sub_net_idx :: u16
  kr_flag :: bool
  kr_phase :: u8
  node_id :: u8
  sub_keys0 :: bt_mesh_subnet_keys
  sub_keys1 :: bt_mesh_subnet_keys

record bt_mesh_app_keys =
  ak_id :: u8
  ak_val :: "u8 list"

record bt_mesh_app_key =
  key_net_idx :: u16
  key_app_idx :: u16
  updated :: bool
  app_keys0 :: bt_mesh_app_keys
  app_keys1 :: bt_mesh_app_keys

record bt_mesh_model_pub =
  pub_addr :: u16
  pub_key :: u16
  pub_cred :: u8
  pub_ttl :: u8
  pub_period :: u8
  pub_retransmit :: u8
  pub_count :: u8
  pub_update :: bool
  pub_timer :: bool

record bt_mesh_model =
  mod_keys :: "u16 list"
  mod_pub :: "bt_mesh_model_pub option"

record bt_mesh_elem =
  models :: "bt_mesh_model list"
  vnd_models :: "bt_mesh_model list"

text \<open>
  The part of \<open>bt_mesh\<close> and of the composition data that the key functions use:
  the two tables of pointers, the two index cursors and the elements with their models.
\<close>

record keystore =
  p_sub :: "bt_mesh_subnet option list"
  p_app_keys :: "bt_mesh_app_key option list"
  p_net_idx_next :: u16
  p_app_idx_next :: u16
  elems :: "bt_mesh_elem list"

text \<open>
  What the collaborators answer during one call: \<open>bt_mesh_rand\<close> (the 16 bytes, or
  \<open>None\<close> for a non-zero return), \<open>osi_calloc\<close>, \<open>bt_mesh_net_keys_create\<close> (the
  filled key structure, or \<open>None\<close>) and \<open>bt_mesh_app_id\<close>.
\<close>

record env =
  rand16 :: "u8 list option"
  calloc_ok :: bool
  net_keys_create :: "u8 list \<Rightarrow> bt_mesh_subnet_keys option"
  app_id :: "u8 list \<Rightarrow> u8 option"

primrec live :: "'a option list \<Rightarrow> 'a list" where
  "live [] = []"
| "live (x # xs) = (case x of None \<Rightarrow> live xs | Some v \<Rightarrow> v # live xs)"

definition slot_has :: "('a \<Rightarrow> bool) \<Rightarrow> 'a option list \<Rightarrow> nat \<Rightarrow> bool" where
  "slot_has p xs i = (case xs ! i of None \<Rightarrow> False | Some v \<Rightarrow> p v)"

definition first_slot :: "('a \<Rightarrow> bool) \<Rightarrow> 'a option list \<Rightarrow> nat option" where
  "first_slot p xs = find (slot_has p xs) [0..<length xs]"

text \<open>
  \<open>provisioner_check_app_key\<close> and \<open>provisioner_check_net_key\<close>: \<open>Some idx\<close> is
  the return value \<open>-EEXIST\<close> with \<open>idx\<close> written through the pointer, \<open>None\<close> is 0.
\<close>

definition provisioner_check_app_key :: "u8 list option \<Rightarrow> keystore \<Rightarrow> u16 option" where
  "provisioner_check_app_key app_key s =
     (case app_key of
        None \<Rightarrow> None
      | Some k \<Rightarrow>
          map_option key_app_idx
            (find (\<lambda>key. memeq 16 (ak_val (app_keys0 key)) k \<or> memeq 16 (ak_val (app_keys1 key)) k)
               (live (p_app_keys s))))"

definition provisioner_check_app_idx :: "u16 \<Rightarrow> bool \<Rightarrow> keystore \<Rightarrow> errno option" where
  "provisioner_check_app_idx app_idx exist s =
     (if exist
      then (if list_ex (\<lambda>key. key_app_idx key = app_idx) (live (p_app_keys s))
            then Some EEXIST else None)
      else (if list_ex (\<lambda>key. key_app_idx key = app_idx) (live (p_app_keys s))
            then None else Some ENODEV))"

definition provisioner_check_app_key_full :: "keystore \<Rightarrow> nat option" where
  "provisioner_check_app_key_full s =
     find (\<lambda>i. p_app_keys s ! i = None) [0..<length (p_app_keys s)]"

definition provisioner_check_net_key :: "u8 list option \<Rightarrow> keystore \<Rightarrow> u16 option" where
  "provisioner_check_net_key net_key s =
     (case net_key of
        None \<Rightarrow> None
      | Some k \<Rightarrow>
          map_option sub_net_idx
            (find (\<lambda>sub. memeq 16 (sk_net (sub_keys0 sub)) k \<or> memeq 16 (sk_net (sub_keys1 sub)) k)
               (live (p_sub s))))"

definition provisioner_check_net_idx :: "u16 \<Rightarrow> bool \<Rightarrow> keystore \<Rightarrow> errno option" where
  "provisioner_check_net_idx net_idx exist s =
     (if exist
      then (if list_ex (\<lambda>sub. sub_net_idx sub = net_idx) (live (p_sub s))
            then Some EEXIST else None)
      else (if list_ex (\<lambda>sub. sub_net_idx sub = net_idx) (live (p_sub s))
            then None else Some ENODEV))"

definition provisioner_check_net_key_full :: "keystore \<Rightarrow> nat option" where
  "provisioner_check_net_key_full s =
     find (\<lambda>i. p_sub s ! i = None) [0..<length (p_sub s)]"

text \<open>
  The \<open>while (1)\<close> loop of both add functions: the candidate index is the cursor, and
  while it is in use the cursor is incremented (in 16 bits) and becomes the candidate;
  a cursor of 0x1000 or more ends the call. The result is the index, if any, and the
  cursor as the loop leaves it.
\<close>

function idx_alloc :: "(u16 \<Rightarrow> bool) \<Rightarrow> u16 \<Rightarrow> u16 option \<times> u16" where
  "idx_alloc used c =
     (if used c
      then (let c' = (c + 1) mod 65536
            in if 0x1000 \<le> c' then (None, c') else idx_alloc used c')
      else (Some c, c))"
  by pat_completeness auto
termination
  by (relation "measure (\<lambda>(used, c). if c < 0x1000 then 0x1000 - c else 0x1001)") auto

definition key_zero :: "u8 list" where
  "key_zero = replicate 16 0"

definition subnet_calloc :: bt_mesh_subnet where
  "subnet_calloc =
     \<lparr>sub_net_idx = 0, kr_flag = False, kr_phase = 0, node_id = 0,
      sub_keys0 = \<lparr>sk_net = key_zero, sk_nid = 0\<rparr>,
      sub_keys1 = \<lparr>sk_net = key_zero, sk_nid = 0\<rparr>\<rparr>"

definition app_key_calloc :: bt_mesh_app_key where
  "app_key_calloc =
     \<lparr>key_net_idx = 0, key_app_idx = 0, updated = False,
      app_keys0 = \<lparr>ak_id = 0, ak_val = key_zero\<rparr>,
      app_keys1 = \<lparr>ak_id = 0, ak_val = key_zero\<rparr>\<rparr>"

definition p_key_of :: "env \<Rightarrow> u8 list option \<Rightarrow> u8 list option" where
  "p_key_of e key = (case key of None \<Rightarrow> rand16 e | Some k \<Rightarrow> Some (take 16 k))"

text \<open>
  \<open>bt_mesh_provisioner_local_net_key_add\<close>. The pointer \<open>net_idx\<close> is \<open>None\<close> when
  null, and the value it points to on return is the \<open>Inr\<close> result.
\<close>

definition net_key_commit :: "bt_mesh_subnet \<Rightarrow> u16 \<Rightarrow> bt_mesh_subnet" where
  "net_key_commit sub idx =
     sub\<lparr>sub_net_idx := idx, kr_phase := BLE_MESH_KR_NORMAL, kr_flag := False,
         node_id := BLE_MESH_NODE_IDENTITY_NOT_SUPPORTED\<rparr>"

definition bt_mesh_provisioner_local_net_key_add ::
  "env \<Rightarrow> u8 list option \<Rightarrow> u16 option \<Rightarrow> keystore \<Rightarrow> (errno + u16) \<times> keystore" where
  "bt_mesh_provisioner_local_net_key_add e net_key net_idx s =
     (if 0x1000 \<le> p_net_idx_next s then (Inl EIO, s)
      else (case net_idx of
        None \<Rightarrow> (Inl EINVAL, s)
      | Some idx \<Rightarrow>
        if idx \<noteq> 0xFFFF \<and> 0x1000 \<le> idx then (Inl EINVAL, s)
        else (case provisioner_check_net_key net_key s of
          Some found \<Rightarrow> (Inr found, s)
        | None \<Rightarrow>
          if provisioner_check_net_idx idx True s \<noteq> None then (Inl EEXIST, s)
          else (case provisioner_check_net_key_full s of
            None \<Rightarrow> (Inl ENOMEM, s)
          | Some add \<Rightarrow>
            (case p_key_of e net_key of
               None \<Rightarrow> (Inl EIO, s)
             | Some p_key \<Rightarrow>
               if \<not> calloc_ok e then (Inl ENOMEM, s)
               else (case net_keys_create e p_key of
                 None \<Rightarrow> (Inl EIO, s)
               | Some k0 \<Rightarrow>
                 (let sub = subnet_calloc\<lparr>sub_keys0 := k0\<rparr>
                  in if idx \<noteq> 0xFFFF
                     then (Inr idx,
                           s\<lparr>p_sub := list_update (p_sub s) add (Some (net_key_commit sub idx))\<rparr>)
                     else (case idx_alloc (\<lambda>i. provisioner_check_net_idx i True s \<noteq> None)
                                 (p_net_idx_next s) of
                       (None, c) \<Rightarrow> (Inl EIO, s\<lparr>p_net_idx_next := c\<rparr>)
                     | (Some i, c) \<Rightarrow>
                         (Inr i,
                          s\<lparr>p_net_idx_next := c,
                            p_sub := list_update (p_sub s) add
                                       (Some (net_key_commit sub i))\<rparr>)))))))))"

definition app_key_commit :: "bt_mesh_app_key \<Rightarrow> u16 \<Rightarrow> bt_mesh_app_key" where
  "app_key_commit key idx = key\<lparr>key_app_idx := idx, updated := False\<rparr>"

definition bt_mesh_provisioner_local_app_key_add ::
  "env \<Rightarrow> u8 list option \<Rightarrow> u16 \<Rightarrow> u16 option \<Rightarrow> keystore \<Rightarrow> (errno + u16) \<times> keystore" where
  "bt_mesh_provisioner_local_app_key_add e app_key net_idx app_idx s =
     (if 0x1000 \<le> p_app_idx_next s then (Inl EIO, s)
      else (case app_idx of
        None \<Rightarrow> (Inl EINVAL, s)
      | Some idx \<Rightarrow>
        if idx \<noteq> 0xFFFF \<and> 0x1000 \<le> idx then (Inl EINVAL, s)
        else (case provisioner_check_app_key app_key s of
          Some found \<Rightarrow> (Inr found, s)
        | None \<Rightarrow>
          if provisioner_check_net_idx net_idx False s \<noteq> None then (Inl ENODEV, s)
          else if provisioner_check_app_idx idx True s \<noteq> None then (Inl EEXIST, s)
          else (case provisioner_check_app_key_full s of
            None \<Rightarrow> (Inl ENOMEM, s)
          | Some add \<Rightarrow>
            (case p_key_of e app_key of
               None \<Rightarrow> (Inl EIO, s)
             | Some p_key \<Rightarrow>
               if \<not> calloc_ok e then (Inl ENOMEM, s)
               else (case app_id e p_key of
                 None \<Rightarrow> (Inl EIO, s)
               | Some aid \<Rightarrow>
                 (let key = app_key_calloc\<lparr>app_keys0 := \<lparr>ak_id = aid, ak_val = p_key\<rparr>,
                                            key_net_idx := net_idx\<rparr>
                  in if idx \<noteq> 0xFFFF
                     then (Inr idx,
                           s\<lparr>p_app_keys := list_update (p_app_keys s) add
                                              (Some (app_key_commit key idx))\<rparr>)
                     else (case idx_alloc (\<lambda>i. provisioner_check_app_idx i True s \<noteq> None)
                                 (p_app_idx_next s) of
                       (None, c) \<Rightarrow> (Inl EIO, s\<lparr>p_app_idx_next := c\<rparr>)
                     | (Some i, c) \<Rightarrow>
                         (Inr i,
                          s\<lparr>p_app_idx_next := c,
                            p_app_keys := list_update (p_app_keys s) add
                                            (Some (app_key_commit key i))\<rparr>)))))))))"

text \<open>\<open>bt_mesh_provisioner_local_app_key_get\<close>: \<open>None\<close> is the null pointer.\<close>

definition bt_mesh_provisioner_local_app_key_get :: "u16 \<Rightarrow> u16 \<Rightarrow> keystore \<Rightarrow> u8 list option" where
  "bt_mesh_provisioner_local_app_key_get net_idx app_idx s =
     (if provisioner_check_net_idx net_idx False s \<noteq> None then None
      else if provisioner_check_app_idx app_idx False s \<noteq> None then None
      else case find (\<lambda>key. key_net_idx key = net_idx \<and> key_app_idx key = app_idx)
                  (live (p_app_keys s)) of
             None \<Rightarrow> None
           | Some key \<Rightarrow>
               Some (if updated key then ak_val (app_keys1 key) else ak_val (app_keys0 key)))"

definition model_pub_clear :: "bt_mesh_model \<Rightarrow> bt_mesh_model" where
  "model_pub_clear model =
     (case mod_pub model of
        None \<Rightarrow> model
      | Some pub \<Rightarrow>
          if pub_addr pub = BLE_MESH_ADDR_UNASSIGNED then model
          else model\<lparr>mod_pub := Some (pub\<lparr>pub_addr := BLE_MESH_ADDR_UNASSIGNED, pub_key := 0,
                 pub_cred := 0, pub_ttl := 0, pub_period := 0, pub_retransmit := 0,
                 pub_count := 0, pub_timer := (if pub_update pub then False else pub_timer pub)\<rparr>)\<rparr>)"

definition model_unbind_slot :: "u16 \<Rightarrow> nat \<Rightarrow> bt_mesh_model \<Rightarrow> bt_mesh_model" where
  "model_unbind_slot app_idx i model =
     (if mod_keys model ! i \<noteq> app_idx then model
      else model_pub_clear (model\<lparr>mod_keys := (mod_keys model)[i := BLE_MESH_KEY_UNUSED]\<rparr>))"

definition model_unbind :: "bt_mesh_model \<Rightarrow> u16 \<Rightarrow> bt_mesh_model" where
  "model_unbind model app_idx =
     fold (model_unbind_slot app_idx) [0..<length (mod_keys model)] model"

text \<open>
  Modelled from the spec: \<open>bt_mesh_model_foreach\<close> is defined outside this file. It
  applies the function to every model in every element of the local directory: here
  the models of an element, then its vendor models.
\<close>

definition bt_mesh_model_foreach ::
  "(bt_mesh_model \<Rightarrow> bt_mesh_model) \<Rightarrow> bt_mesh_elem list \<Rightarrow> bt_mesh_elem list" where
  "bt_mesh_model_foreach f es =
     map (\<lambda>el. el\<lparr>models := map f (models el), vnd_models := map f (vnd_models el)\<rparr>) es"

definition bt_mesh_provisioner_local_app_key_delete ::
  "u16 \<Rightarrow> u16 \<Rightarrow> keystore \<Rightarrow> (errno + unit) \<times> keystore" where
  "bt_mesh_provisioner_local_app_key_delete net_idx app_idx s =
     (if provisioner_check_net_idx net_idx False s \<noteq> None then (Inl ENODEV, s)
      else if provisioner_check_app_idx app_idx False s \<noteq> None then (Inl ENODEV, s)
      else case first_slot (\<lambda>key. key_net_idx key = net_idx \<and> key_app_idx key = app_idx)
                  (p_app_keys s) of
             None \<Rightarrow> (Inl ENODEV, s)
           | Some i \<Rightarrow>
               (Inr (),
                s\<lparr>elems := bt_mesh_model_foreach (\<lambda>m. model_unbind m app_idx) (elems s),
                  p_app_keys := (p_app_keys s)[i := None]\<rparr>))"

text \<open>
  \<open>bt_mesh_provisioner_local_net_key_delete\<close>. The inner loop reads
  \<open>key->net_idx\<close> of every slot of \<open>p_app_keys\<close> without a null check: at a null
  slot the read goes through a null pointer. The result of the application key delete
  is not looked at.
\<close>

definition net_key_delete_slot :: "u16 \<Rightarrow> nat \<Rightarrow> keystore option \<Rightarrow> keystore option" where
  "net_key_delete_slot net_idx j so =
     (case so of
        None \<Rightarrow> None
      | Some s \<Rightarrow>
          (case p_app_keys s ! j of
             None \<Rightarrow> None
           | Some key \<Rightarrow>
               if key_net_idx key = net_idx
               then Some (snd (bt_mesh_provisioner_local_app_key_delete
                                 (key_net_idx key) (key_app_idx key) s))
               else Some s))"

definition net_key_delete_app_keys :: "u16 \<Rightarrow> keystore \<Rightarrow> keystore option" where
  "net_key_delete_app_keys net_idx s =
     fold (net_key_delete_slot net_idx) [0..<length (p_app_keys s)] (Some s)"

definition bt_mesh_provisioner_local_net_key_delete ::
  "u16 \<Rightarrow> keystore \<Rightarrow> ((errno + unit) \<times> keystore) option" where
  "bt_mesh_provisioner_local_net_key_delete net_idx s =
     (if provisioner_check_net_idx net_idx False s \<noteq> None then Some (Inl ENODEV, s)
      else case first_slot (\<lambda>sub. sub_net_idx sub = net_idx) (p_sub s) of
             None \<Rightarrow> Some (Inl ENODEV, s)
           | Some i \<Rightarrow>
               (case net_key_delete_app_keys net_idx s of
                  None \<Rightarrow> None
                | Some s1 \<Rightarrow> Some (Inr (), s1\<lparr>p_sub := (p_sub s1)[i := None]\<rparr>)))"

definition slot_values :: "bt_mesh_elem list \<Rightarrow> u16 list" where
  "slot_values es = concat (map (\<lambda>el. concat (map mod_keys (models el @ vnd_models el))) es)"

text \<open>
  What the inner loop of the network key delete leaves in a row of \<open>p_app_keys\<close> it
  has visited: nothing if the key belonged to the subnet, the key otherwise.
\<close>

definition cascade_row :: "u16 \<Rightarrow> bt_mesh_app_key option \<Rightarrow> bt_mesh_app_key option" where
  "cascade_row n x =
     (case x of None \<Rightarrow> None | Some k \<Rightarrow> if key_net_idx k = n then None else Some k)"

text \<open>An index is in use when a live row of the table carries it.\<close>

definition net_idx_live :: "keystore \<Rightarrow> u16 \<Rightarrow> bool" where
  "net_idx_live s i = list_ex (\<lambda>sub. sub_net_idx sub = i) (live (p_sub s))"

definition app_idx_live :: "keystore \<Rightarrow> u16 \<Rightarrow> bool" where
  "app_idx_live s i = list_ex (\<lambda>key. key_app_idx key = i) (live (p_app_keys s))"

subsection \<open>Example data\<close>

definition ex_node :: "u8 \<Rightarrow> u16 \<Rightarrow> bt_mesh_node" where
  "ex_node u a =
     \<lparr>node_addr = \<lparr>addr_type = 0, addr_val = replicate 6 u\<rparr>, dev_uuid = replicate 16 u,
      oob_info = 0, unicast_addr = a, element_num = 1, node_net_idx = 0, node_flags = 0,
      iv_index = 0, dev_key = replicate 16 0\<rparr>"

definition ex_registry :: registry where
  "ex_registry =
     \<lparr>mesh_nodes = [Some (ex_node 1 2), Some (ex_node 7 3)],
      all_node_count = 2, prov_node_count = 1, rpl = []\<rparr>"

definition ex_subnet :: "u16 \<Rightarrow> u8 \<Rightarrow> bt_mesh_subnet" where
  "ex_subnet i b =
     \<lparr>sub_net_idx = i, kr_flag = False, kr_phase = 0, node_id = 2,
      sub_keys0 = \<lparr>sk_net = replicate 16 b, sk_nid = 0\<rparr>,
      sub_keys1 = \<lparr>sk_net = replicate 16 0, sk_nid = 0\<rparr>\<rparr>"

definition ex_app_key :: "u16 \<Rightarrow> u16 \<Rightarrow> u8 \<Rightarrow> bt_mesh_app_key" where
  "ex_app_key n a b =
     \<lparr>key_net_idx = n, key_app_idx = a, updated = False,
      app_keys0 = \<lparr>ak_id = 0, ak_val = replicate 16 b\<rparr>,
      app_keys1 = \<lparr>ak_id = 0, ak_val = replicate 16 0\<rparr>\<rparr>"

definition ex_keystore :: keystore where
  "ex_keystore =
     \<lparr>p_sub = [Some (ex_subnet 0 1), Some (ex_subnet 1 2), None],
      p_app_keys = [Some (ex_app_key 1 5 9), None],
      p_net_idx_next = 1, p_app_idx_next = 0,
      elems = [\<lparr>models = [\<lparr>mod_keys = [5, 0xFFFF], mod_pub = None\<rparr>], vnd_models = []\<rparr>]\<rparr>"

definition ex_env :: env where
  "ex_env =
     \<lparr>rand16 = Some (replicate 16 3), calloc_ok = True,
      net_keys_create = (\<lambda>k. Some \<lparr>sk_net = k, sk_nid = 0\<rparr>),
      app_id = (\<lambda>k. Some 0)\<rparr>"

definition ex_keystore_last :: keystore where
  "ex_keystore_last =
     \<lparr>p_sub = [Some (ex_subnet 0xFFF 1), None], p_app_keys = [None],
      p_net_idx_next = 0xFFF, p_app_idx_next = 0, elems = []\<rparr>"

definition ex_keystore_exhausted :: keystore where
  "ex_keystore_exhausted = ex_keystore_last\<lparr>p_net_idx_next := 0x1000\<rparr>"

definition ex_keystore_full :: keystore where
  "ex_keystore_full =
     ex_keystore\<lparr>p_app_keys := [Some (ex_app_key 1 5 9), Some (ex_app_key 0 6 8)]\<rparr>"

section \<open>Properties\<close>

lemma occupied_update_Some:
  "i < length xs \<Longrightarrow> xs ! i = None \<Longrightarrow> occupied (xs[i := Some v]) = Suc (occupied xs)"
proof (induction xs arbitrary: i)
  case Nil then show ?case by simp
next
  case (Cons x xs)
  then show ?case by (cases i) (auto simp: occupied_def)
qed

lemma occupied_update_None:
  "i < length xs \<Longrightarrow> xs ! i = Some v \<Longrightarrow> Suc (occupied (xs[i := None])) = occupied xs"
proof (induction xs arbitrary: i)
  case Nil then show ?case by simp
next
  case (Cons x xs)
  then show ?case by (cases i) (auto simp: occupied_def)
qed

lemma occupied_le: "occupied xs \<le> length xs"
  by (simp add: occupied_def)

lemma occupied_lt: "i < length xs \<Longrightarrow> xs ! i = None \<Longrightarrow> occupied xs < length xs"
  using occupied_update_Some[of i xs undefined] occupied_le[of "xs[i := Some undefined]"]
  by simp

lemma occupied_take_le: "occupied (take P xs) \<le> occupied xs"
proof -
  have "occupied xs = occupied (take P xs) + occupied (drop P xs)"
    unfolding occupied_def by (metis append_take_drop_id filter_append length_append)
  then show ?thesis by simp
qed

lemma store_node_counts:
  assumes "counts_ok P s" "length (mesh_nodes s) < 65536"
    and "provisioner_store_node P node prov ok s = Some (r, s')"
    and PN: "P \<le> length (mesh_nodes s)"
  shows "counts_ok P s'"
proof -
  let ?xs = "mesh_nodes s"
  let ?lo = "if prov then 0 else P mod 65536"
  let ?hi = "if prov then P mod 65536 else length ?xs mod 65536"
  show ?thesis
  proof (cases "find (\<lambda>i. length ?xs \<le> i \<or> ?xs ! i = None) [?lo..<?hi]")
    case None
    with assms show ?thesis by (simp add: provisioner_store_node_def Let_def)
  next
    case (Some i)
    then have i: "?lo \<le> i" "i < ?hi" "length ?xs \<le> i \<or> ?xs ! i = None"
      by (auto simp: find_Some_iff)
    show ?thesis
    proof (cases "length ?xs \<le> i \<or> \<not> ok")
      case True
      with assms Some show ?thesis
        by (auto simp: provisioner_store_node_def Let_def split: if_splits)
    next
      case False
      then have il: "i < length ?xs" and ok by auto
      with i have free: "?xs ! i = None" by auto
      from assms(3) Some il \<open>ok\<close>
      have s': "s' = provisioner_node_count_inc prov (s\<lparr>mesh_nodes := ?xs[i := Some node]\<rparr>)"
        by (simp add: provisioner_store_node_def Let_def)
      have a: "occupied (?xs[i := Some node]) = Suc (occupied ?xs)"
        using il free by (rule occupied_update_Some)
      have b: "Suc (occupied ?xs) < 65536"
        using occupied_lt[OF il free] assms(2) by simp
      show ?thesis
      proof (cases prov)
        case True
        with i have "i < P mod 65536" by simp
        then have iP: "i < P" by (meson less_le_trans mod_less_eq_dividend)
        have c: "occupied (take P (?xs[i := Some node])) = Suc (occupied (take P ?xs))"
          using il iP free by (simp add: take_update_swap occupied_update_Some)
        have d: "Suc (occupied (take P ?xs)) < 65536"
          using b occupied_take_le[of P ?xs] by simp
        show ?thesis using assms(1) True a b c d
          by (simp add: s' counts_ok_def provisioner_node_count_inc_def Let_def)
      next
        case False
        with i have "P mod 65536 \<le> i" by simp
        moreover have "P < 65536" using PN assms(2) by simp
        ultimately have "P \<le> i" by simp
        then have c: "take P (?xs[i := Some node]) = take P ?xs" by simp
        show ?thesis using assms(1) False a b c
          by (simp add: s' counts_ok_def provisioner_node_count_inc_def Let_def)
      qed
    qed
  qed
qed

lemma reset_node_counts:
  assumes "counts_ok P s" "provisioner_reset_node P i s = Some (r, s')"
  shows "counts_ok P s'"
proof (cases "length (mesh_nodes s) \<le> i")
  case True
  with assms show ?thesis by (simp add: provisioner_reset_node_def)
next
  case False
  then have il: "i < length (mesh_nodes s)" by simp
  show ?thesis
  proof (cases "mesh_nodes s ! i")
    case None
    with assms il show ?thesis by (simp add: provisioner_reset_node_def)
  next
    case (Some n)
    have a: "Suc (occupied ((mesh_nodes s)[i := None])) = occupied (mesh_nodes s)"
      using il Some by (rule occupied_update_None)
    show ?thesis
    proof (cases "i < P")
      case True
      have c: "Suc (occupied (take P ((mesh_nodes s)[i := None]))) = occupied (take P (mesh_nodes s))"
        using il True Some by (simp add: take_update_swap occupied_update_None)
      from assms il Some True a c show ?thesis
        by (auto simp: provisioner_reset_node_def Let_def counts_ok_def
            provisioner_node_count_dec_def)
    next
      case False
      then have c: "take P ((mesh_nodes s)[i := None]) = take P (mesh_nodes s)" by simp
      from assms il Some False a c show ?thesis
        by (auto simp: provisioner_reset_node_def Let_def counts_ok_def
            provisioner_node_count_dec_def)
    qed
  qed
qed

lemma store_node_returns:
  assumes "P \<le> length (mesh_nodes s)"
  shows "\<exists>r s'. provisioner_store_node P node prov ok s = Some (r, s') \<and>
           length (mesh_nodes s') = length (mesh_nodes s)"
proof -
  let ?xs = "mesh_nodes s"
  let ?lo = "if prov then 0 else P mod 65536"
  let ?hi = "if prov then P mod 65536 else length ?xs mod 65536"
  have hi: "?hi \<le> length ?xs"
    using assms by (auto intro: order_trans[OF mod_less_eq_dividend])
  show ?thesis
  proof (cases "find (\<lambda>i. length ?xs \<le> i \<or> ?xs ! i = None) [?lo..<?hi]")
    case None
    then show ?thesis by (simp add: provisioner_store_node_def Let_def)
  next
    case (Some i)
    then have "i < ?hi" by (auto simp: find_Some_iff)
    then have "i < length ?xs" using hi by linarith
    with Some show ?thesis
      by (simp add: provisioner_store_node_def Let_def provisioner_node_count_inc_def)
  qed
qed

lemma reset_node_returns:
  assumes "i < length (mesh_nodes s)"
  shows "\<exists>s'. provisioner_reset_node P i s = Some (Inr (), s') \<and>
           length (mesh_nodes s') = length (mesh_nodes s) \<and>
           mesh_nodes s' = (mesh_nodes s)[i := None]"
proof (cases "mesh_nodes s ! i")
  case None
  then have "(mesh_nodes s)[i := None] = mesh_nodes s"
    using assms by (simp add: list_update_same_conv)
  with None assms show ?thesis
    by (simp add: provisioner_reset_node_def)
next
  case (Some n)
  with assms show ?thesis
    by (simp add: provisioner_reset_node_def Let_def provisioner_node_count_dec_def)
qed

lemma apply_node_op_ok:
  assumes "counts_ok P s" "length (mesh_nodes s) = N" "P \<le> N" "N < 65536" "op_in_range N x"
  shows "\<exists>s'. apply_node_op P x s = Some s' \<and> counts_ok P s' \<and> length (mesh_nodes s') = N"
proof (cases x)
  case (Store node prov ok)
  from assms have "P \<le> length (mesh_nodes s)" by simp
  from store_node_returns[OF this, of node prov ok] obtain r s'
    where st: "provisioner_store_node P node prov ok s = Some (r, s')"
      and len: "length (mesh_nodes s') = length (mesh_nodes s)" by blast
  have "counts_ok P s'"
    using store_node_counts[OF assms(1) _ st] assms by simp
  with st len Store assms show ?thesis by simp
next
  case (Reset i)
  with assms have "i < length (mesh_nodes s)" by (simp add: op_in_range_def)
  from reset_node_returns[OF this, of P] obtain s'
    where st: "provisioner_reset_node P i s = Some (Inr (), s')"
      and len: "length (mesh_nodes s') = length (mesh_nodes s)" by blast
  have "counts_ok P s'" using reset_node_counts[OF assms(1) st] .
  with st len Reset assms show ?thesis by simp
qed

lemma run_node_ops_ok:
  assumes "P \<le> N" "N < 65536"
  shows "counts_ok P s \<Longrightarrow> length (mesh_nodes s) = N \<Longrightarrow> list_all (op_in_range N) ops \<Longrightarrow>
         \<exists>s'. run_node_ops P ops s = Some s' \<and> counts_ok P s' \<and> length (mesh_nodes s') = N"
proof (induction ops arbitrary: s)
  case Nil
  then show ?case by simp
next
  case (Cons x xs)
  from Cons.prems have x: "op_in_range N x" and xs: "list_all (op_in_range N) xs" by simp_all
  from apply_node_op_ok[OF Cons.prems(1,2) assms x] obtain s1
    where s1: "apply_node_op P x s = Some s1" "counts_ok P s1" "length (mesh_nodes s1) = N"
    by blast
  from Cons.IH[OF s1(2,3) xs] s1(1) show ?case by simp
qed

lemma registry_init_ok: "counts_ok P (registry_init N r) \<and> length (mesh_nodes (registry_init N r)) = N"
  by (simp add: counts_ok_def registry_init_def occupied_def)

lemma node_count_dec_le:
  "all_node_count (provisioner_node_count_dec b s) \<le> all_node_count s \<and>
   prov_node_count (provisioner_node_count_dec b s) \<le> prov_node_count s"
  by (simp add: provisioner_node_count_dec_def Let_def)

lemma reset_node_empty:
  "i < length (mesh_nodes s) \<Longrightarrow> mesh_nodes s ! i = None \<Longrightarrow>
   provisioner_reset_node P i s = Some (Inr (), s)"
  by (simp add: provisioner_reset_node_def)

lemma find_reset_spec:
  assumes PN: "P \<le> length (mesh_nodes s)"
  shows "\<exists>b s'. find_reset P m reset s = Some (b, s') \<and>
           (b \<longleftrightarrow> (\<exists>i<P. slot_has m (mesh_nodes s) i)) \<and>
           (\<forall>j. P \<le> j \<longrightarrow> mesh_nodes s' ! j = mesh_nodes s ! j) \<and>
           (\<not> (reset \<and> b) \<longrightarrow> s' = s) \<and>
           (reset \<and> b \<longrightarrow>
              (\<exists>i<P. slot_has m (mesh_nodes s) i \<and> (\<forall>k<i. \<not> slot_has m (mesh_nodes s) k) \<and>
                 provisioner_reset_node P i s = Some (Inr (), s') \<and> mesh_nodes s' ! i = None))"
proof -
  let ?xs = "mesh_nodes s"
  let ?p = "\<lambda>i. length ?xs \<le> i \<or> (case ?xs ! i of None \<Rightarrow> False | Some n \<Rightarrow> m n)"
  have p: "\<And>i. i < P \<Longrightarrow> ?p i = slot_has m ?xs i"
    using PN by (auto simp: slot_has_def)
  show ?thesis
  proof (cases "find ?p [0..<P]")
    case None
    then have "\<forall>i<P. \<not> ?p i" by (simp add: find_None_iff)
    with p have "\<forall>i<P. \<not> slot_has m ?xs i" by blast
    with None show ?thesis by (auto simp: find_reset_def)
  next
    case (Some i)
    then have i: "i < P" "?p i" "\<forall>k<i. \<not> ?p k"
      by (auto simp: find_Some_iff)
    then have hit: "slot_has m ?xs i" and first: "\<forall>k<i. \<not> slot_has m ?xs k"
      using p by auto
    have il: "i < length ?xs" using i(1) PN by simp
    show ?thesis
    proof (cases reset)
      case False
      with Some il hit i(1) show ?thesis by (auto simp: find_reset_def)
    next
      case True
      from reset_node_returns[OF il, of P] obtain s'
        where s': "provisioner_reset_node P i s = Some (Inr (), s')"
          "mesh_nodes s' = ?xs[i := None]" by blast
      have "find_reset P m reset s = Some (True, s')"
        using Some il True s'(1) by (simp add: find_reset_def)
      moreover have "\<forall>j. P \<le> j \<longrightarrow> mesh_nodes s' ! j = ?xs ! j"
        using s'(2) i(1) by simp
      moreover have "mesh_nodes s' ! i = None" using s'(2) il by simp
      ultimately show ?thesis using hit first i(1) s'(1) True by blast
    qed
  qed
qed

text \<open>
  C9. With the self-provisioned partition inside the table, both searches return, and
  return true exactly when a live node at an index below
  \<open>CONFIG_BLE_MESH_MAX_PROV_NODES\<close> matches; no slot at or above that index changes;
  without the reset option, or without a match, nothing changes; with the reset option
  the first matching slot is reset by \<open>provisioner_reset_node\<close> and is empty afterwards.
\<close>

theorem find_reset_scans_prov_partition:
  assumes "P \<le> length (mesh_nodes s)"
  shows "(\<exists>b s'. provisioner_find_reset_node_with_uuid P uuid reset s = Some (b, s') \<and>
           (b \<longleftrightarrow> (\<exists>i<P. slot_has (uuid_matches uuid) (mesh_nodes s) i)) \<and>
           (\<forall>j. P \<le> j \<longrightarrow> mesh_nodes s' ! j = mesh_nodes s ! j) \<and>
           (\<not> (reset \<and> b) \<longrightarrow> s' = s) \<and>
           (reset \<and> b \<longrightarrow>
              (\<exists>i<P. slot_has (uuid_matches uuid) (mesh_nodes s) i \<and>
                 (\<forall>k<i. \<not> slot_has (uuid_matches uuid) (mesh_nodes s) k) \<and>
                 provisioner_reset_node P i s = Some (Inr (), s') \<and>
                 mesh_nodes s' ! i = None))) \<and>
         (\<exists>b s'. provisioner_find_reset_node_with_addr P addr reset s = Some (b, s') \<and>
           (b \<longleftrightarrow> (\<exists>i<P. slot_has (addr_matches addr) (mesh_nodes s) i)) \<and>
           (\<forall>j. P \<le> j \<longrightarrow> mesh_nodes s' ! j = mesh_nodes s ! j) \<and>
           (\<not> (reset \<and> b) \<longrightarrow> s' = s) \<and>
           (reset \<and> b \<longrightarrow>
              (\<exists>i<P. slot_has (addr_matches addr) (mesh_nodes s) i \<and>
                 (\<forall>k<i. \<not> slot_has (addr_matches addr) (mesh_nodes s) k) \<and>
                 provisioner_reset_node P i s = Some (Inr (), s') \<and>
                 mesh_nodes s' ! i = None)))"
  unfolding provisioner_find_reset_node_with_uuid_def provisioner_find_reset_node_with_addr_def
  using find_reset_spec[OF assms, of "uuid_matches uuid" reset]
        find_reset_spec[OF assms, of "addr_matches addr" reset]
  by (rule conjI)

lemma ex_registry_simps:
  "mesh_nodes ex_registry = [Some (ex_node 1 2), Some (ex_node 7 3)]"
  "all_node_count ex_registry = 2" "prov_node_count ex_registry = 1" "rpl ex_registry = []"
  by (simp_all add: ex_registry_def)

lemma ex_node_simps:
  "dev_uuid (ex_node u a) = replicate 16 u"
  "addr_val (node_addr (ex_node u a)) = replicate 6 u"
  "addr_type (node_addr (ex_node u a)) = 0"
  "unicast_addr (ex_node u a) = a" "element_num (ex_node u a) = 1"
  by (simp_all add: ex_node_def)

theorem find_reset_scans_prov_partition_witness:
  "provisioner_find_reset_node_with_uuid 1 (replicate 16 7) True ex_registry
     = Some (False, ex_registry) \<and>
   provisioner_find_reset_node_with_addr 1 \<lparr>addr_type = 0, addr_val = replicate 6 7\<rparr> True ex_registry
     = Some (False, ex_registry) \<and>
   slot_has (uuid_matches (replicate 16 7)) (mesh_nodes ex_registry) 1"
proof -
  have len: "1 \<le> length (mesh_nodes ex_registry)" by (simp add: ex_registry_simps)
  have no0: "\<not> slot_has (uuid_matches (replicate 16 7)) (mesh_nodes ex_registry) 0"
    by (simp add: slot_has_def ex_registry_simps uuid_matches_def memeq_def ex_node_simps)
  have no0a: "\<not> slot_has (addr_matches \<lparr>addr_type = 0, addr_val = replicate 6 7\<rparr>)
                 (mesh_nodes ex_registry) 0"
    by (simp add: slot_has_def ex_registry_simps addr_matches_def memeq_def ex_node_simps
        BLE_MESH_ADDR_LEN_def)
  have yes1: "slot_has (uuid_matches (replicate 16 7)) (mesh_nodes ex_registry) 1"
    by (simp add: slot_has_def ex_registry_simps uuid_matches_def memeq_def ex_node_simps)
  from find_reset_scans_prov_partition[OF len, of "replicate 16 7" True
      "\<lparr>addr_type = 0, addr_val = replicate 6 7\<rparr>"] no0 no0a yes1
  show ?thesis by auto
qed

text \<open>
  C7. For an index inside the table, \<open>provisioner_reset_node\<close> returns 0, and a second
  call on the state it leaves returns 0 and leaves that state as it is: the node table,
  both counters and the replay list are unchanged. When the slot is empty on entry the
  first call already changes nothing.
\<close>

theorem reset_node_idempotent:
  assumes "i < length (mesh_nodes s)"
  shows "\<exists>s1. provisioner_reset_node P i s = Some (Inr (), s1) \<and>
           provisioner_reset_node P i s1 = Some (Inr (), s1) \<and>
           (mesh_nodes s ! i = None \<longrightarrow> s1 = s)"
proof -
  from reset_node_returns[OF assms, of P] obtain s1
    where s1: "provisioner_reset_node P i s = Some (Inr (), s1)"
      "length (mesh_nodes s1) = length (mesh_nodes s)"
      "mesh_nodes s1 = (mesh_nodes s)[i := None]" by blast
  then have "mesh_nodes s1 ! i = None" "i < length (mesh_nodes s1)" using assms by simp_all
  then have "provisioner_reset_node P i s1 = Some (Inr (), s1)"
    by (simp add: reset_node_empty)
  moreover have "mesh_nodes s ! i = None \<longrightarrow> s1 = s"
    using s1(1) assms by (auto simp: reset_node_empty)
  ultimately show ?thesis using s1(1) by (intro exI[of _ s1]) simp
qed

theorem reset_node_idempotent_witness:
  "\<exists>s1. provisioner_reset_node 1 0 ex_registry = Some (Inr (), s1) \<and>
         provisioner_reset_node 1 0 s1 = Some (Inr (), s1) \<and>
         mesh_nodes s1 = [None, Some (ex_node 7 3)] \<and>
         all_node_count s1 = 1 \<and> prov_node_count s1 = 0"
proof -
  have len: "0 < length (mesh_nodes ex_registry)" by (simp add: ex_registry_simps)
  from reset_node_idempotent[OF len, of 1] obtain s1 where
    s1: "provisioner_reset_node 1 0 ex_registry = Some (Inr (), s1)"
        "provisioner_reset_node 1 0 s1 = Some (Inr (), s1)" by blast
  from s1(1) have "s1 = \<lparr>mesh_nodes = [None, Some (ex_node 7 3)],
      all_node_count = 1, prov_node_count = 0, rpl = []\<rparr>"
    by (simp add: provisioner_reset_node_def ex_registry_def Let_def
        provisioner_node_count_dec_def)
  with s1 show ?thesis by simp
qed

text \<open>
  C10. From the zero-initialised registry, with the self-provisioned partition inside a
  table of fewer than 65536 slots, every sequence of \<open>provisioner_store_node\<close> and
  \<open>provisioner_reset_node\<close> calls (reset indices inside the table) returns, and
  afterwards \<open>all_node_count\<close> is the number of occupied slots and
  \<open>prov_node_count\<close> the number of occupied slots below
  \<open>CONFIG_BLE_MESH_MAX_PROV_NODES\<close>. A reset of an empty slot changes nothing, and
  a decrement never raises a counter.
\<close>

theorem node_counts_invariant:
  assumes "P \<le> N" "N < 65536" "list_all (op_in_range N) ops"
  shows "\<exists>s'. run_node_ops P ops (registry_init N r) = Some s' \<and>
           all_node_count s' = occupied (mesh_nodes s') \<and>
           prov_node_count s' = occupied (take P (mesh_nodes s')) \<and>
           (\<forall>i < N. mesh_nodes s' ! i = None \<longrightarrow>
              provisioner_reset_node P i s' = Some (Inr (), s')) \<and>
           (\<forall>b. all_node_count (provisioner_node_count_dec b s') \<le> all_node_count s' \<and>
                prov_node_count (provisioner_node_count_dec b s') \<le> prov_node_count s')"
proof -
  from run_node_ops_ok[OF assms(1,2) _ _ assms(3), of "registry_init N r"] registry_init_ok[of P N r]
  obtain s' where s': "run_node_ops P ops (registry_init N r) = Some s'" "counts_ok P s'"
    "length (mesh_nodes s') = N" by blast
  then show ?thesis
    using reset_node_empty[of _ s' P] node_count_dec_le[of _ s']
    by (auto simp: counts_ok_def)
qed

theorem node_counts_invariant_witness:
  "(1::nat) \<le> 2 \<and> (2::nat) < 65536 \<and>
   list_all (op_in_range 2)
     [Store (ex_node 1 2) True True, Store (ex_node 7 3) False True, Reset 0, Reset 0] \<and>
   (\<exists>s'. run_node_ops 1
            [Store (ex_node 1 2) True True, Store (ex_node 7 3) False True, Reset 0, Reset 0]
            (registry_init 2 []) = Some s' \<and>
         mesh_nodes s' = [None, Some (ex_node 7 3)] \<and>
         all_node_count s' = occupied (mesh_nodes s') \<and> all_node_count s' = 1 \<and>
         prov_node_count s' = occupied (take 1 (mesh_nodes s')) \<and> prov_node_count s' = 0)"
proof -
  let ?ops = "[Store (ex_node 1 2) True True, Store (ex_node 7 3) False True, Reset 0, Reset 0]"
  have h: "list_all (op_in_range 2) ?ops" by (simp add: op_in_range_def)
  from node_counts_invariant[of 1 2 ?ops "[]", OF _ _ h] obtain s' where
    s': "run_node_ops 1 ?ops (registry_init 2 []) = Some s'"
        "all_node_count s' = occupied (mesh_nodes s')"
        "prov_node_count s' = occupied (take 1 (mesh_nodes s'))"
    by auto
  have "run_node_ops 1 ?ops (registry_init 2 []) =
        Some \<lparr>mesh_nodes = [None, Some (ex_node 7 3)], all_node_count = 1,
              prov_node_count = 0, rpl = []\<rparr>"
    by (simp add: registry_init_def provisioner_store_node_def provisioner_reset_node_def
        provisioner_node_count_inc_def provisioner_node_count_dec_def Let_def
        upt_conv_Cons numeral_2_eq_2)
  with s'(1) have eq: "s' = \<lparr>mesh_nodes = [None, Some (ex_node 7 3)], all_node_count = 1,
              prov_node_count = 0, rpl = []\<rparr>" by simp
  have d: "mesh_nodes s' = [None, Some (ex_node 7 3)]" "all_node_count s' = 1"
    "prov_node_count s' = 0" by (simp_all add: eq)
  show ?thesis
    by (intro conjI exI[of _ s']; (fact h s' d | simp))
qed

lemma set_live: "set (live xs) = {v. Some v \<in> set xs}"
  by (induction xs) (auto split: option.splits)

lemma check_app_idx_exists:
  "provisioner_check_app_idx a False s = None \<longleftrightarrow> (\<exists>k. Some k \<in> set (p_app_keys s) \<and> key_app_idx k = a)"
  by (auto simp: provisioner_check_app_idx_def list_ex_iff set_live)

lemma ex_keystore_simps:
  "p_sub ex_keystore = [Some (ex_subnet 0 1), Some (ex_subnet 1 2), None]"
  "p_app_keys ex_keystore = [Some (ex_app_key 1 5 9), None]"
  "p_net_idx_next ex_keystore = 1" "p_app_idx_next ex_keystore = 0"
  by (simp_all add: ex_keystore_def)

lemma ex_subnet_simps:
  "sub_net_idx (ex_subnet i b) = i" "sk_net (sub_keys0 (ex_subnet i b)) = replicate 16 b"
  "sk_net (sub_keys1 (ex_subnet i b)) = replicate 16 0" "kr_flag (ex_subnet i b) = False"
  by (simp_all add: ex_subnet_def)

lemma ex_app_key_simps:
  "key_net_idx (ex_app_key n a b) = n" "key_app_idx (ex_app_key n a b) = a"
  "ak_val (app_keys0 (ex_app_key n a b)) = replicate 16 b"
  "ak_val (app_keys1 (ex_app_key n a b)) = replicate 16 0" "updated (ex_app_key n a b) = False"
  by (simp_all add: ex_app_key_def)

text \<open>
  C8 as stated fails: the lookup also requires the application key to be bound to the
  requested network key index.
\<close>

theorem app_key_get_counterexample:
  "provisioner_check_net_idx 0 False ex_keystore = None \<and>
   provisioner_check_app_idx 5 False ex_keystore = None \<and>
   bt_mesh_provisioner_local_app_key_get 0 5 ex_keystore = None"
  by (simp add: provisioner_check_net_idx_def provisioner_check_app_idx_def
      bt_mesh_provisioner_local_app_key_get_def ex_keystore_simps ex_subnet_simps
      ex_app_key_simps)

text \<open>
  C8, amended. When a live subnet has index \<open>net_idx\<close> and a live application key has
  both \<open>net_idx\<close> and \<open>app_idx\<close>, \<open>bt_mesh_provisioner_local_app_key_get\<close> returns
  the key of such a row: \<open>keys[1].val\<close> if \<open>updated\<close>, else \<open>keys[0].val\<close>. When
  no live application key has both indices it returns the null pointer.
\<close>

theorem app_key_get_active:
  "(provisioner_check_net_idx n False s = None \<and>
    list_ex (\<lambda>k. key_net_idx k = n \<and> key_app_idx k = a) (live (p_app_keys s)) \<longrightarrow>
      (\<exists>k \<in> set (live (p_app_keys s)). key_net_idx k = n \<and> key_app_idx k = a \<and>
         bt_mesh_provisioner_local_app_key_get n a s =
           Some (if updated k then ak_val (app_keys1 k) else ak_val (app_keys0 k)))) \<and>
   (\<not> list_ex (\<lambda>k. key_net_idx k = n \<and> key_app_idx k = a) (live (p_app_keys s)) \<longrightarrow>
      bt_mesh_provisioner_local_app_key_get n a s = None)"
proof (intro conjI impI)
  let ?p = "\<lambda>k. key_net_idx k = n \<and> key_app_idx k = a"
  assume h: "provisioner_check_net_idx n False s = None \<and> list_ex ?p (live (p_app_keys s))"
  then obtain k0 where k0: "k0 \<in> set (live (p_app_keys s))" "?p k0"
    by (auto simp: list_ex_iff)
  then have "find ?p (live (p_app_keys s)) \<noteq> None" by (auto simp: find_None_iff)
  then obtain k where k: "find ?p (live (p_app_keys s)) = Some k" by blast
  then have kin: "k \<in> set (live (p_app_keys s))" "?p k"
    by (auto simp: find_Some_iff)
  have "provisioner_check_app_idx a False s = None"
    using k0 by (auto simp: check_app_idx_exists set_live)
  with h k have "bt_mesh_provisioner_local_app_key_get n a s =
      Some (if updated k then ak_val (app_keys1 k) else ak_val (app_keys0 k))"
    by (simp add: bt_mesh_provisioner_local_app_key_get_def)
  with kin show "\<exists>k \<in> set (live (p_app_keys s)). key_net_idx k = n \<and> key_app_idx k = a \<and>
         bt_mesh_provisioner_local_app_key_get n a s =
           Some (if updated k then ak_val (app_keys1 k) else ak_val (app_keys0 k))"
    by blast
next
  let ?p = "\<lambda>k. key_net_idx k = n \<and> key_app_idx k = a"
  assume "\<not> list_ex ?p (live (p_app_keys s))"
  then have "find ?p (live (p_app_keys s)) = None"
    by (auto simp: find_None_iff list_ex_iff)
  then show "bt_mesh_provisioner_local_app_key_get n a s = None"
    by (simp add: bt_mesh_provisioner_local_app_key_get_def)
qed

theorem app_key_get_active_witness:
  "provisioner_check_net_idx 1 False ex_keystore = None \<and>
   list_ex (\<lambda>k. key_net_idx k = 1 \<and> key_app_idx k = 5) (live (p_app_keys ex_keystore)) \<and>
   bt_mesh_provisioner_local_app_key_get 1 5 ex_keystore = Some (replicate 16 9)"
proof -
  have h: "provisioner_check_net_idx 1 False ex_keystore = None \<and>
     list_ex (\<lambda>k. key_net_idx k = 1 \<and> key_app_idx k = 5) (live (p_app_keys ex_keystore))"
    by (simp add: provisioner_check_net_idx_def ex_keystore_simps ex_subnet_simps ex_app_key_simps)
  have l: "live (p_app_keys ex_keystore) = [ex_app_key 1 5 9]"
    by (simp add: ex_keystore_simps)
  from app_key_get_active[of 1 ex_keystore 5] h
  have "\<exists>k \<in> set (live (p_app_keys ex_keystore)). 
         bt_mesh_provisioner_local_app_key_get 1 5 ex_keystore =
           Some (if updated k then ak_val (app_keys1 k) else ak_val (app_keys0 k))"
    by blast
  then have "bt_mesh_provisioner_local_app_key_get 1 5 ex_keystore = Some (replicate 16 9)"
    unfolding l by (simp add: ex_app_key_simps)
  with h show ?thesis by blast
qed

lemma ex_env_simps:
  "rand16 ex_env = Some (replicate 16 3)" "calloc_ok ex_env"
  "net_keys_create ex_env k = Some \<lparr>sk_net = k, sk_nid = 0\<rparr>" "app_id ex_env k = Some 0"
  by (simp_all add: ex_env_def)

lemma ex_keystore_last_simps:
  "p_sub ex_keystore_last = [Some (ex_subnet 0xFFF 1), None]"
  "p_app_keys ex_keystore_last = [None]"
  "p_net_idx_next ex_keystore_last = 0xFFF" "p_app_idx_next ex_keystore_last = 0"
  "p_sub ex_keystore_exhausted = [Some (ex_subnet 0xFFF 1), None]"
  "p_app_keys ex_keystore_exhausted = [None]"
  "p_net_idx_next ex_keystore_exhausted = 0x1000" "p_app_idx_next ex_keystore_exhausted = 0"
  by (simp_all add: ex_keystore_last_def ex_keystore_exhausted_def)

text \<open>
  The cursor reaches 0x1000: with the cursor at 0xFFF and that index in use, an add
  with the automatic index fails and leaves the cursor at 0x1000.
\<close>

lemma cursor_exhausted_reachable:
  "bt_mesh_provisioner_local_net_key_add ex_env None (Some 0xFFFF) ex_keystore_last
     = (Inl EIO, ex_keystore_exhausted)"
  by (simp add: bt_mesh_provisioner_local_net_key_add_def ex_keystore_last_simps
      provisioner_check_net_key_def provisioner_check_net_idx_def provisioner_check_net_key_full_def
      ex_subnet_simps p_key_of_def ex_env_simps upt_conv_Cons ex_keystore_exhausted_def Let_def)

text \<open>
  C2 as stated fails: the key bytes are compared with the stored application keys before
  the network key index is looked at, and a match returns 0.
\<close>

theorem app_key_add_dead_subnet_counterexample:
  "provisioner_check_net_idx 7 False ex_keystore = Some ENODEV \<and>
   bt_mesh_provisioner_local_app_key_add ex_env (Some (replicate 16 9)) 7 (Some 0xFFFF) ex_keystore
     = (Inr 5, ex_keystore)"
  by (simp add: bt_mesh_provisioner_local_app_key_add_def provisioner_check_net_idx_def
      provisioner_check_app_key_def ex_keystore_simps ex_subnet_simps ex_app_key_simps memeq_def)

text \<open>
  C2, amended. When \<open>net_idx\<close> is not the index of a live subnet, the application key
  cursor is below 0x1000 and the requested index is 0xFFFF or below 0x1000:
  \<open>bt_mesh_provisioner_local_app_key_add\<close> returns \<open>-ENODEV\<close> and changes nothing
  when no key bytes are given or they match no stored application key; when they match
  a stored application key it returns 0 with that key's index and changes nothing.
\<close>

theorem app_key_add_dead_subnet:
  assumes "provisioner_check_net_idx net_idx False s \<noteq> None"
    and "p_app_idx_next s < 0x1000" and "idx = 0xFFFF \<or> idx < 0x1000"
  shows "(provisioner_check_app_key app_key s = None \<longrightarrow>
            bt_mesh_provisioner_local_app_key_add e app_key net_idx (Some idx) s = (Inl ENODEV, s)) \<and>
         (\<forall>found. provisioner_check_app_key app_key s = Some found \<longrightarrow>
            bt_mesh_provisioner_local_app_key_add e app_key net_idx (Some idx) s = (Inr found, s))"
  using assms by (auto simp: bt_mesh_provisioner_local_app_key_add_def)

theorem app_key_add_dead_subnet_witness:
  "provisioner_check_net_idx 7 False ex_keystore \<noteq> None \<and>
   provisioner_check_app_key (Some (replicate 16 4)) ex_keystore = None \<and>
   bt_mesh_provisioner_local_app_key_add ex_env (Some (replicate 16 4)) 7 (Some 3) ex_keystore
     = (Inl ENODEV, ex_keystore)"
proof -
  have a: "provisioner_check_net_idx 7 False ex_keystore \<noteq> None"
    by (simp add: provisioner_check_net_idx_def ex_keystore_simps ex_subnet_simps)
  have b: "p_app_idx_next ex_keystore < 0x1000" by (simp add: ex_keystore_simps)
  have c: "(3::nat) = 0xFFFF \<or> (3::nat) < 0x1000" by simp
  have d: "provisioner_check_app_key (Some (replicate 16 4)) ex_keystore = None"
    by (simp add: provisioner_check_app_key_def ex_keystore_simps ex_app_key_simps memeq_def)
  from app_key_add_dead_subnet[OF a b c, of "Some (replicate 16 4)" ex_env] a d
  show ?thesis by simp
qed

lemma find_live_first:
  "find p (live xs) = Some v \<Longrightarrow>
   \<exists>i<length xs. xs ! i = Some v \<and> p v \<and> (\<forall>j<i. \<not> slot_has p xs j)"
proof (induction xs)
  case Nil
  then show ?case by simp
next
  case (Cons x xs)
  show ?case
  proof (cases x)
    case None
    with Cons.prems have "find p (live xs) = Some v" by simp
    from Cons.IH[OF this] obtain i where i: "i < length xs" "xs ! i = Some v" "p v"
      "\<forall>j<i. \<not> slot_has p xs j" by blast
    have "\<forall>j<Suc i. \<not> slot_has p (x # xs) j"
    proof (intro allI impI)
      fix j assume "j < Suc i"
      then show "\<not> slot_has p (x # xs) j"
        using i(4) None by (cases j) (simp_all add: slot_has_def)
    qed
    with i show ?thesis by (intro exI[of _ "Suc i"]) simp
  next
    case (Some w)
    show ?thesis
    proof (cases "p w")
      case True
      with Cons.prems Some have "v = w" by simp
      with True Some show ?thesis by (intro exI[of _ 0]) simp
    next
      case False
      with Cons.prems Some have "find p (live xs) = Some v" by simp
      from Cons.IH[OF this] obtain i where i: "i < length xs" "xs ! i = Some v" "p v"
        "\<forall>j<i. \<not> slot_has p xs j" by blast
      have "\<forall>j<Suc i. \<not> slot_has p (x # xs) j"
      proof (intro allI impI)
        fix j assume "j < Suc i"
        then show "\<not> slot_has p (x # xs) j"
          using i(4) Some False by (cases j) (simp_all add: slot_has_def)
      qed
      with i show ?thesis by (intro exI[of _ "Suc i"]) simp
    qed
  qed
qed

text \<open>
  C3 as stated fails: once the cursor has reached 0x1000 the add returns \<open>-EIO\<close>
  before it compares any key bytes.
\<close>

theorem net_key_add_idempotent_counterexample:
  "provisioner_check_net_key (Some (replicate 16 1)) ex_keystore_exhausted = Some 0xFFF \<and>
   bt_mesh_provisioner_local_net_key_add ex_env (Some (replicate 16 1)) (Some 2)
     ex_keystore_exhausted = (Inl EIO, ex_keystore_exhausted)"
  by (simp add: bt_mesh_provisioner_local_net_key_add_def provisioner_check_net_key_def
      ex_keystore_last_simps ex_subnet_simps memeq_def)

text \<open>
  C3, amended. When the network key cursor is below 0x1000 and the requested index is
  0xFFFF or below 0x1000, adding key bytes that match \<open>keys[0].net\<close> or
  \<open>keys[1].net\<close> of a live subnet returns 0 with the index of the first row of the
  table that holds such a subnet, and leaves the whole state unchanged, whatever index
  was asked for.
\<close>

theorem net_key_add_idempotent:
  assumes "p_net_idx_next s < 0x1000" and "idx = 0xFFFF \<or> idx < 0x1000"
    and "sub \<in> set (live (p_sub s))"
    and "memeq 16 (sk_net (sub_keys0 sub)) k \<or> memeq 16 (sk_net (sub_keys1 sub)) k"
  shows "\<exists>i<length (p_sub s). \<exists>sub'. p_sub s ! i = Some sub' \<and>
           (memeq 16 (sk_net (sub_keys0 sub')) k \<or> memeq 16 (sk_net (sub_keys1 sub')) k) \<and>
           (\<forall>j<i. \<not> slot_has (\<lambda>x. memeq 16 (sk_net (sub_keys0 x)) k \<or>
                                     memeq 16 (sk_net (sub_keys1 x)) k) (p_sub s) j) \<and>
           bt_mesh_provisioner_local_net_key_add e (Some k) (Some idx) s
             = (Inr (sub_net_idx sub'), s)"
proof -
  let ?p = "\<lambda>x. memeq 16 (sk_net (sub_keys0 x)) k \<or> memeq 16 (sk_net (sub_keys1 x)) k"
  have "find ?p (live (p_sub s)) \<noteq> None"
    using assms(3,4) by (auto simp: find_None_iff)
  then obtain sub' where f: "find ?p (live (p_sub s)) = Some sub'" by blast
  then have chk: "provisioner_check_net_key (Some k) s = Some (sub_net_idx sub')"
    by (simp add: provisioner_check_net_key_def)
  from find_live_first[OF f] obtain i where i: "i < length (p_sub s)" "p_sub s ! i = Some sub'"
    "?p sub'" "\<forall>j<i. \<not> slot_has ?p (p_sub s) j" by blast
  have "bt_mesh_provisioner_local_net_key_add e (Some k) (Some idx) s
          = (Inr (sub_net_idx sub'), s)"
    using assms(1,2) chk by (auto simp: bt_mesh_provisioner_local_net_key_add_def)
  with i show ?thesis by blast
qed

theorem net_key_add_idempotent_witness:
  "bt_mesh_provisioner_local_net_key_add ex_env (Some (replicate 16 0)) (Some 2) ex_keystore
     = (Inr 0, ex_keystore) \<and>
   bt_mesh_provisioner_local_net_key_add ex_env (Some (replicate 16 2)) (Some 2) ex_keystore
     = (Inr 1, ex_keystore)"
proof -
  let ?p = "\<lambda>k x. memeq 16 (sk_net (sub_keys0 x)) k \<or> memeq 16 (sk_net (sub_keys1 x)) k"
  have a: "p_net_idx_next ex_keystore < 0x1000" by (simp add: ex_keystore_simps)
  have b: "(2::nat) = 0xFFFF \<or> (2::nat) < 0x1000" by simp
  have l: "live (p_sub ex_keystore) = [ex_subnet 0 1, ex_subnet 1 2]"
    by (simp add: ex_keystore_simps)
  have c: "ex_subnet 1 2 \<in> set (live (p_sub ex_keystore))" by (simp add: l)
  have d0: "?p (replicate 16 0) (ex_subnet 1 2)" by (simp add: memeq_def ex_subnet_simps)
  have d2: "?p (replicate 16 2) (ex_subnet 1 2)" by (simp add: memeq_def ex_subnet_simps)
  have m0: "slot_has (?p (replicate 16 0)) (p_sub ex_keystore) 0"
    by (simp add: slot_has_def ex_keystore_simps memeq_def ex_subnet_simps)
  have n2: "\<not> slot_has (?p (replicate 16 2)) (p_sub ex_keystore) j" if "j \<noteq> 1" "j < 3" for j
  proof -
    from that have "j = 0 \<or> j = 2" by arith
    then show ?thesis
      by (auto simp: slot_has_def ex_keystore_simps memeq_def ex_subnet_simps)
  qed
  have len: "length (p_sub ex_keystore) = 3" by (simp add: ex_keystore_simps)
  from net_key_add_idempotent[OF a b c d0, of ex_env] obtain i sub' where
    r0: "p_sub ex_keystore ! i = Some sub'"
        "\<forall>j<i. \<not> slot_has (?p (replicate 16 0)) (p_sub ex_keystore) j"
        "bt_mesh_provisioner_local_net_key_add ex_env (Some (replicate 16 0)) (Some 2) ex_keystore
           = (Inr (sub_net_idx sub'), ex_keystore)" by blast
  from r0(2) m0 have "i = 0" by (cases i) auto
  with r0(1) have "sub' = ex_subnet 0 1" by (simp add: ex_keystore_simps)
  with r0(3) have first: "bt_mesh_provisioner_local_net_key_add ex_env (Some (replicate 16 0))
      (Some 2) ex_keystore = (Inr 0, ex_keystore)" by (simp add: ex_subnet_simps)
  from net_key_add_idempotent[OF a b c d2, of ex_env] obtain i sub' where
    r2: "i < length (p_sub ex_keystore)" "p_sub ex_keystore ! i = Some sub'"
        "?p (replicate 16 2) sub'"
        "bt_mesh_provisioner_local_net_key_add ex_env (Some (replicate 16 2)) (Some 2) ex_keystore
           = (Inr (sub_net_idx sub'), ex_keystore)" by blast
  from r2(2,3) have "slot_has (?p (replicate 16 2)) (p_sub ex_keystore) i"
    by (simp add: slot_has_def)
  with n2[of i] r2(1) len have "i = 1" by auto
  with r2(2) have "sub' = ex_subnet 1 2" by (simp add: ex_keystore_simps)
  with r2(4) have "bt_mesh_provisioner_local_net_key_add ex_env (Some (replicate 16 2))
      (Some 2) ex_keystore = (Inr 1, ex_keystore)" by (simp add: ex_subnet_simps)
  with first show ?thesis by simp
qed

lemma first_free_None:
  "find (\<lambda>i. xs ! i = None) [0..<length xs] = None \<longleftrightarrow> None \<notin> set xs"
  by (auto simp: find_None_iff in_set_conv_nth)

lemma first_free_Some:
  "find (\<lambda>i. xs ! i = None) [0..<length xs] = Some j \<Longrightarrow>
   j < length xs \<and> xs ! j = None \<and> (\<forall>i<j. xs ! i \<noteq> None)"
  by (auto simp: find_Some_iff)

lemma net_key_full_None: "provisioner_check_net_key_full s = None \<longleftrightarrow> None \<notin> set (p_sub s)"
  by (simp add: provisioner_check_net_key_full_def first_free_None)

lemma check_net_idx_True:
  "provisioner_check_net_idx n True s = None \<longleftrightarrow>
   \<not> list_ex (\<lambda>sub. sub_net_idx sub = n) (live (p_sub s))"
  by (simp add: provisioner_check_net_idx_def)

text \<open>
  C4 as stated fails: once the cursor has reached 0x1000, an add with an explicit index
  that is in use returns \<open>-EIO\<close>, not \<open>-EEXIST\<close>.
\<close>

theorem net_key_add_explicit_index_counterexample:
  "provisioner_check_net_key (Some (replicate 16 4)) ex_keystore_exhausted = None \<and>
   provisioner_check_net_idx 0xFFF True ex_keystore_exhausted = Some EEXIST \<and>
   bt_mesh_provisioner_local_net_key_add ex_env (Some (replicate 16 4)) (Some 0xFFF)
     ex_keystore_exhausted = (Inl EIO, ex_keystore_exhausted)"
  by (simp add: bt_mesh_provisioner_local_net_key_add_def provisioner_check_net_key_def
      provisioner_check_net_idx_def ex_keystore_last_simps ex_subnet_simps memeq_def)

text \<open>
  C4, amended. For a network key add with the cursor below 0x1000, an explicit index
  below 0x1000 and key bytes that match no stored key: if the index is in use the call
  returns \<open>-EEXIST\<close>; otherwise, if the table has no free row, \<open>-ENOMEM\<close>; in both
  cases nothing changes. Otherwise the only failures left are those of the
  collaborators (random bytes, memory, key derivation), which also change nothing, and
  when they succeed the call returns 0 and writes the new subnet, with the requested
  index, into the first free row.
\<close>

theorem net_key_add_explicit_index:
  assumes "p_net_idx_next s < 0x1000" and "idx < 0x1000"
    and "provisioner_check_net_key net_key s = None"
  shows
   "(list_ex (\<lambda>sub. sub_net_idx sub = idx) (live (p_sub s)) \<longrightarrow>
       bt_mesh_provisioner_local_net_key_add e net_key (Some idx) s = (Inl EEXIST, s)) \<and>
    (\<not> list_ex (\<lambda>sub. sub_net_idx sub = idx) (live (p_sub s)) \<and> None \<notin> set (p_sub s) \<longrightarrow>
       bt_mesh_provisioner_local_net_key_add e net_key (Some idx) s = (Inl ENOMEM, s)) \<and>
    (\<not> list_ex (\<lambda>sub. sub_net_idx sub = idx) (live (p_sub s)) \<and> None \<in> set (p_sub s) \<longrightarrow>
       (p_key_of e net_key = None \<longrightarrow>
          bt_mesh_provisioner_local_net_key_add e net_key (Some idx) s = (Inl EIO, s)) \<and>
       (\<forall>pk. p_key_of e net_key = Some pk \<and> \<not> calloc_ok e \<longrightarrow>
          bt_mesh_provisioner_local_net_key_add e net_key (Some idx) s = (Inl ENOMEM, s)) \<and>
       (\<forall>pk. p_key_of e net_key = Some pk \<and> calloc_ok e \<and> net_keys_create e pk = None \<longrightarrow>
          bt_mesh_provisioner_local_net_key_add e net_key (Some idx) s = (Inl EIO, s)) \<and>
       (\<forall>pk k0. p_key_of e net_key = Some pk \<and> calloc_ok e \<and> net_keys_create e pk = Some k0 \<longrightarrow>
          (\<exists>j<length (p_sub s). p_sub s ! j = None \<and> (\<forall>i<j. p_sub s ! i \<noteq> None) \<and>
             bt_mesh_provisioner_local_net_key_add e net_key (Some idx) s =
               (Inr idx, s\<lparr>p_sub := (p_sub s)[j :=
                   Some (net_key_commit (subnet_calloc\<lparr>sub_keys0 := k0\<rparr>) idx)]\<rparr>))))"
proof -
  let ?live = "list_ex (\<lambda>sub. sub_net_idx sub = idx) (live (p_sub s))"
  have idx: "\<not> (idx \<noteq> 0xFFFF \<and> 0x1000 \<le> idx)" "idx \<noteq> 0xFFFF" "\<not> 0x1000 \<le> p_net_idx_next s"
    using assms(1,2) by simp_all
  have A: "?live \<longrightarrow> bt_mesh_provisioner_local_net_key_add e net_key (Some idx) s = (Inl EEXIST, s)"
    using idx assms(3) by (simp add: bt_mesh_provisioner_local_net_key_add_def check_net_idx_True)
  have B: "\<not> ?live \<and> None \<notin> set (p_sub s) \<longrightarrow>
       bt_mesh_provisioner_local_net_key_add e net_key (Some idx) s = (Inl ENOMEM, s)"
    using idx assms(3) net_key_full_None[of s]
    by (auto simp: bt_mesh_provisioner_local_net_key_add_def check_net_idx_True)
  have C: "\<not> ?live \<and> None \<in> set (p_sub s) \<longrightarrow>
       (p_key_of e net_key = None \<longrightarrow>
          bt_mesh_provisioner_local_net_key_add e net_key (Some idx) s = (Inl EIO, s)) \<and>
       (\<forall>pk. p_key_of e net_key = Some pk \<and> \<not> calloc_ok e \<longrightarrow>
          bt_mesh_provisioner_local_net_key_add e net_key (Some idx) s = (Inl ENOMEM, s)) \<and>
       (\<forall>pk. p_key_of e net_key = Some pk \<and> calloc_ok e \<and> net_keys_create e pk = None \<longrightarrow>
          bt_mesh_provisioner_local_net_key_add e net_key (Some idx) s = (Inl EIO, s)) \<and>
       (\<forall>pk k0. p_key_of e net_key = Some pk \<and> calloc_ok e \<and> net_keys_create e pk = Some k0 \<longrightarrow>
          (\<exists>j<length (p_sub s). p_sub s ! j = None \<and> (\<forall>i<j. p_sub s ! i \<noteq> None) \<and>
             bt_mesh_provisioner_local_net_key_add e net_key (Some idx) s =
               (Inr idx, s\<lparr>p_sub := (p_sub s)[j :=
                   Some (net_key_commit (subnet_calloc\<lparr>sub_keys0 := k0\<rparr>) idx)]\<rparr>)))"
  proof
    assume h: "\<not> ?live \<and> None \<in> set (p_sub s)"
    then have "provisioner_check_net_key_full s \<noteq> None" by (simp add: net_key_full_None)
    then obtain j where j: "provisioner_check_net_key_full s = Some j" by blast
    then have j': "j < length (p_sub s)" "p_sub s ! j = None" "\<forall>i<j. p_sub s ! i \<noteq> None"
      using first_free_Some[of "p_sub s" j] by (simp_all add: provisioner_check_net_key_full_def)
    have pre: "provisioner_check_net_idx idx True s = None"
      using h check_net_idx_True[of idx s] by simp
    show "(p_key_of e net_key = None \<longrightarrow>
          bt_mesh_provisioner_local_net_key_add e net_key (Some idx) s = (Inl EIO, s)) \<and>
       (\<forall>pk. p_key_of e net_key = Some pk \<and> \<not> calloc_ok e \<longrightarrow>
          bt_mesh_provisioner_local_net_key_add e net_key (Some idx) s = (Inl ENOMEM, s)) \<and>
       (\<forall>pk. p_key_of e net_key = Some pk \<and> calloc_ok e \<and> net_keys_create e pk = None \<longrightarrow>
          bt_mesh_provisioner_local_net_key_add e net_key (Some idx) s = (Inl EIO, s)) \<and>
       (\<forall>pk k0. p_key_of e net_key = Some pk \<and> calloc_ok e \<and> net_keys_create e pk = Some k0 \<longrightarrow>
          (\<exists>j<length (p_sub s). p_sub s ! j = None \<and> (\<forall>i<j. p_sub s ! i \<noteq> None) \<and>
             bt_mesh_provisioner_local_net_key_add e net_key (Some idx) s =
               (Inr idx, s\<lparr>p_sub := (p_sub s)[j :=
                   Some (net_key_commit (subnet_calloc\<lparr>sub_keys0 := k0\<rparr>) idx)]\<rparr>)))"
    proof (intro conjI allI impI)
      fix pk k0
      assume "p_key_of e net_key = Some pk \<and> calloc_ok e \<and> net_keys_create e pk = Some k0"
      then have "bt_mesh_provisioner_local_net_key_add e net_key (Some idx) s =
               (Inr idx, s\<lparr>p_sub := (p_sub s)[j :=
                   Some (net_key_commit (subnet_calloc\<lparr>sub_keys0 := k0\<rparr>) idx)]\<rparr>)"
        using idx assms(3) pre j
        by (simp add: bt_mesh_provisioner_local_net_key_add_def Let_def)
      with j' show "\<exists>j<length (p_sub s). p_sub s ! j = None \<and> (\<forall>i<j. p_sub s ! i \<noteq> None) \<and>
             bt_mesh_provisioner_local_net_key_add e net_key (Some idx) s =
               (Inr idx, s\<lparr>p_sub := (p_sub s)[j :=
                   Some (net_key_commit (subnet_calloc\<lparr>sub_keys0 := k0\<rparr>) idx)]\<rparr>)"
        by blast
    qed (use idx assms(3) pre j in \<open>simp_all add: bt_mesh_provisioner_local_net_key_add_def\<close>)
  qed
  from A B C show ?thesis by (intro conjI)
qed

theorem net_key_add_explicit_index_witness:
  "bt_mesh_provisioner_local_net_key_add ex_env (Some (replicate 16 4)) (Some 1) ex_keystore
     = (Inl EEXIST, ex_keystore) \<and>
   bt_mesh_provisioner_local_net_key_add ex_env (Some (replicate 16 4)) (Some 9) ex_keystore
     = (Inr 9, ex_keystore\<lparr>p_sub := [Some (ex_subnet 0 1), Some (ex_subnet 1 2),
                                 Some (ex_subnet 9 4)]\<rparr>)"
proof -
  have a: "p_net_idx_next ex_keystore < 0x1000" by (simp add: ex_keystore_simps)
  have c: "provisioner_check_net_key (Some (replicate 16 4)) ex_keystore = None"
    by (simp add: provisioner_check_net_key_def ex_keystore_simps ex_subnet_simps memeq_def)
  have l: "live (p_sub ex_keystore) = [ex_subnet 0 1, ex_subnet 1 2]"
    by (simp add: ex_keystore_simps)
  have l1: "list_ex (\<lambda>sub. sub_net_idx sub = 1) (live (p_sub ex_keystore))"
    by (simp add: l ex_subnet_simps)
  have l9: "\<not> list_ex (\<lambda>sub. sub_net_idx sub = 9) (live (p_sub ex_keystore)) \<and>
            None \<in> set (p_sub ex_keystore)"
    by (simp add: l ex_subnet_simps) (simp add: ex_keystore_simps)
  have pk: "p_key_of ex_env (Some (replicate 16 4)) = Some (replicate 16 4) \<and> calloc_ok ex_env \<and>
     net_keys_create ex_env (replicate 16 4) = Some \<lparr>sk_net = replicate 16 4, sk_nid = 0\<rparr>"
    by (simp add: p_key_of_def ex_env_simps)
  have first: "bt_mesh_provisioner_local_net_key_add ex_env (Some (replicate 16 4)) (Some 1)
      ex_keystore = (Inl EEXIST, ex_keystore)"
    using net_key_add_explicit_index[OF a _ c, of 1 ex_env] l1 by simp
  from net_key_add_explicit_index[OF a _ c, of 9 ex_env] l9 pk
  obtain j where j: "j < length (p_sub ex_keystore)" "p_sub ex_keystore ! j = None"
    "bt_mesh_provisioner_local_net_key_add ex_env (Some (replicate 16 4)) (Some 9) ex_keystore =
       (Inr 9, ex_keystore\<lparr>p_sub := (p_sub ex_keystore)[j :=
           Some (net_key_commit (subnet_calloc\<lparr>sub_keys0 := \<lparr>sk_net = replicate 16 4, sk_nid = 0\<rparr>\<rparr>) 9)]\<rparr>)"
    by auto
  from j(1,2) have "j = 2"
    by (cases j; simp add: ex_keystore_simps; rename_tac j'; case_tac j'; simp; 
        rename_tac j''; case_tac j''; simp)
  moreover have "net_key_commit (subnet_calloc\<lparr>sub_keys0 := \<lparr>sk_net = replicate 16 4, sk_nid = 0\<rparr>\<rparr>) 9
     = ex_subnet 9 4"
    by (simp add: net_key_commit_def subnet_calloc_def ex_subnet_def key_zero_def
        BLE_MESH_KR_NORMAL_def BLE_MESH_NODE_IDENTITY_NOT_SUPPORTED_def)
  ultimately have "bt_mesh_provisioner_local_net_key_add ex_env (Some (replicate 16 4)) (Some 9)
     ex_keystore = (Inr 9, ex_keystore\<lparr>p_sub := [Some (ex_subnet 0 1), Some (ex_subnet 1 2),
                                 Some (ex_subnet 9 4)]\<rparr>)"
    using j(3) by (simp add: ex_keystore_simps)
  with first show ?thesis by simp
qed

declare idx_alloc.simps [simp del]

lemma idx_alloc_Some:
  "idx_alloc used c = (Some i, c') \<Longrightarrow> c < 0x1000 \<Longrightarrow>
   c \<le> i \<and> i < 0x1000 \<and> \<not> used i \<and> (\<forall>j. c \<le> j \<and> j < i \<longrightarrow> used j) \<and> c' = i"
proof (induction used c rule: idx_alloc.induct)
  case (1 used c)
  show ?case
  proof (cases "used c")
    case False
    with "1.prems" show ?thesis by (subst (asm) idx_alloc.simps) auto
  next
    case True
    from "1.prems"(2) have m: "(c + 1) mod 65536 = c + 1" by simp
    from "1.prems"(1) True m have lt: "\<not> 0x1000 \<le> c + 1"
      by (subst (asm) idx_alloc.simps) (auto simp: Let_def split: if_splits)
    from "1.prems"(1) True m lt have r: "idx_alloc used (c + 1) = (Some i, c')"
      by (subst (asm) idx_alloc.simps) (simp add: Let_def)
    from lt have lt': "c + 1 < 0x1000" by simp
    note ih0 = "1.IH"[OF True refl, unfolded m]
    from ih0[OF lt r lt']
    have ih: "c + 1 \<le> i \<and> i < 0x1000 \<and> \<not> used i \<and> (\<forall>j. c + 1 \<le> j \<and> j < i \<longrightarrow> used j) \<and> c' = i" .
    have "\<forall>j. c \<le> j \<and> j < i \<longrightarrow> used j"
    proof (intro allI impI)
      fix j assume "c \<le> j \<and> j < i"
      then show "used j" using ih True by (cases "j = c") auto
    qed
    with ih show ?thesis by simp
  qed
qed

lemma idx_alloc_None:
  "idx_alloc used c = (None, c') \<Longrightarrow> c < 0x1000 \<Longrightarrow>
   (\<forall>j. c \<le> j \<and> j < 0x1000 \<longrightarrow> used j) \<and> c' = 0x1000"
proof (induction used c rule: idx_alloc.induct)
  case (1 used c)
  show ?case
  proof (cases "used c")
    case False
    with "1.prems" show ?thesis by (subst (asm) idx_alloc.simps) simp
  next
    case True
    from "1.prems"(2) have m: "(c + 1) mod 65536 = c + 1" by simp
    show ?thesis
    proof (cases "0x1000 \<le> c + 1")
      case hi: True
      with "1.prems" True m have c': "c' = c + 1"
        by (subst (asm) idx_alloc.simps) (simp add: Let_def)
      from hi "1.prems"(2) have c: "c = 4095" by arith
      have "used j" if "c \<le> j \<and> j < 0x1000" for j
      proof -
        from that c have "j = c" by arith
        with True show ?thesis by simp
      qed
      moreover from c c' have "c' = 0x1000" by simp
      ultimately show ?thesis by blast
    next
      case lo: False
      from "1.prems"(1) True m lo have r: "idx_alloc used (c + 1) = (None, c')"
        by (subst (asm) idx_alloc.simps) (simp add: Let_def)
      from lo have lt: "c + 1 < 0x1000" by simp
      note ih0 = "1.IH"[OF True refl, unfolded m]
      from ih0[OF lo r lt]
      have ih: "(\<forall>j. c + 1 \<le> j \<and> j < 0x1000 \<longrightarrow> used j) \<and> c' = 0x1000" .
      have "\<forall>j. c \<le> j \<and> j < 0x1000 \<longrightarrow> used j"
      proof (intro allI impI)
        fix j assume "c \<le> j \<and> j < 0x1000"
        then show "used j" using ih True by (cases "j = c") auto
      qed
      with ih show ?thesis by simp
    qed
  qed
qed

lemma net_key_add_cases:
  "(\<exists>err. bt_mesh_provisioner_local_net_key_add e key idx s = (Inl err, s)) \<or>
   (\<exists>found. provisioner_check_net_key key s = Some found \<and>
      bt_mesh_provisioner_local_net_key_add e key idx s = (Inr found, s)) \<or>
   (\<exists>i slot pk k0. idx = Some i \<and> i < 0x1000 \<and> p_net_idx_next s < 0x1000 \<and>
      provisioner_check_net_key key s = None \<and>
      provisioner_check_net_key_full s = Some slot \<and>
      p_key_of e key = Some pk \<and> calloc_ok e \<and> net_keys_create e pk = Some k0 \<and>
      bt_mesh_provisioner_local_net_key_add e key idx s =
        (Inr i, s\<lparr>p_sub := (p_sub s)[slot :=
            Some (net_key_commit (subnet_calloc\<lparr>sub_keys0 := k0\<rparr>) i)]\<rparr>)) \<or>
   (\<exists>slot pk k0. idx = Some 0xFFFF \<and> p_net_idx_next s < 0x1000 \<and>
      provisioner_check_net_key key s = None \<and>
      provisioner_check_net_idx 0xFFFF True s = None \<and>
      provisioner_check_net_key_full s = Some slot \<and>
      p_key_of e key = Some pk \<and> calloc_ok e \<and> net_keys_create e pk = Some k0 \<and>
      bt_mesh_provisioner_local_net_key_add e key idx s =
        (case idx_alloc (\<lambda>i. provisioner_check_net_idx i True s \<noteq> None) (p_net_idx_next s) of
           (None, c) \<Rightarrow> (Inl EIO, s\<lparr>p_net_idx_next := c\<rparr>)
         | (Some i, c) \<Rightarrow>
             (Inr i, s\<lparr>p_net_idx_next := c, p_sub := (p_sub s)[slot :=
                 Some (net_key_commit (subnet_calloc\<lparr>sub_keys0 := k0\<rparr>) i)]\<rparr>)))"
  unfolding bt_mesh_provisioner_local_net_key_add_def Let_def
  by (simp split: option.split)

lemma app_key_add_cases:
  "(\<exists>err. bt_mesh_provisioner_local_app_key_add e key n idx s = (Inl err, s)) \<or>
   (\<exists>found. provisioner_check_app_key key s = Some found \<and>
      bt_mesh_provisioner_local_app_key_add e key n idx s = (Inr found, s)) \<or>
   (\<exists>i slot pk aid. idx = Some i \<and> i < 0x1000 \<and> p_app_idx_next s < 0x1000 \<and>
      provisioner_check_app_key key s = None \<and>
      provisioner_check_net_idx n False s = None \<and>
      provisioner_check_app_key_full s = Some slot \<and>
      p_key_of e key = Some pk \<and> calloc_ok e \<and> app_id e pk = Some aid \<and>
      bt_mesh_provisioner_local_app_key_add e key n idx s =
        (Inr i, s\<lparr>p_app_keys := (p_app_keys s)[slot :=
            Some (app_key_commit (app_key_calloc\<lparr>app_keys0 := \<lparr>ak_id = aid, ak_val = pk\<rparr>,
                     key_net_idx := n\<rparr>) i)]\<rparr>)) \<or>
   (\<exists>slot pk aid. idx = Some 0xFFFF \<and> p_app_idx_next s < 0x1000 \<and>
      provisioner_check_app_key key s = None \<and>
      provisioner_check_net_idx n False s = None \<and>
      provisioner_check_app_idx 0xFFFF True s = None \<and>
      provisioner_check_app_key_full s = Some slot \<and>
      p_key_of e key = Some pk \<and> calloc_ok e \<and> app_id e pk = Some aid \<and>
      bt_mesh_provisioner_local_app_key_add e key n idx s =
        (case idx_alloc (\<lambda>i. provisioner_check_app_idx i True s \<noteq> None) (p_app_idx_next s) of
           (None, c) \<Rightarrow> (Inl EIO, s\<lparr>p_app_idx_next := c\<rparr>)
         | (Some i, c) \<Rightarrow>
             (Inr i, s\<lparr>p_app_idx_next := c, p_app_keys := (p_app_keys s)[slot :=
                 Some (app_key_commit (app_key_calloc\<lparr>app_keys0 := \<lparr>ak_id = aid, ak_val = pk\<rparr>,
                          key_net_idx := n\<rparr>) i)]\<rparr>)))"
  unfolding bt_mesh_provisioner_local_app_key_add_def Let_def
  by (simp split: option.split)

lemma net_key_add_error:
  assumes "bt_mesh_provisioner_local_net_key_add e key idx s = (Inl err, s')"
  shows "s' = s \<or> (err = EIO \<and> idx = Some 0xFFFF \<and> s' = s\<lparr>p_net_idx_next := 0x1000\<rparr> \<and>
           p_net_idx_next s < 0x1000 \<and>
           (\<exists>pk k0. p_key_of e key = Some pk \<and> calloc_ok e \<and> net_keys_create e pk = Some k0))"
proof -
  from net_key_add_cases[of e key idx s] assms
  consider "s' = s"
    | slot pk k0 where "idx = Some 0xFFFF" "p_net_idx_next s < 0x1000"
        "p_key_of e key = Some pk" "calloc_ok e" "net_keys_create e pk = Some k0"
        "(Inl err, s') =
          (case idx_alloc (\<lambda>i. provisioner_check_net_idx i True s \<noteq> None) (p_net_idx_next s) of
             (None, c) \<Rightarrow> (Inl EIO, s\<lparr>p_net_idx_next := c\<rparr>)
           | (Some i, c) \<Rightarrow>
               (Inr i, s\<lparr>p_net_idx_next := c, p_sub := (p_sub s)[slot :=
                   Some (net_key_commit (subnet_calloc\<lparr>sub_keys0 := k0\<rparr>) i)]\<rparr>))"
    by auto
  then show ?thesis
  proof cases
    case 1
    then show ?thesis by simp
  next
    case 2
    obtain r c where rc: "idx_alloc (\<lambda>i. provisioner_check_net_idx i True s \<noteq> None)
        (p_net_idx_next s) = (r, c)" by (cases "idx_alloc (\<lambda>i. provisioner_check_net_idx i True s \<noteq> None)
        (p_net_idx_next s)")
    with 2(6) have r: "r = None" "err = EIO" "s' = s\<lparr>p_net_idx_next := c\<rparr>"
      by (cases r; simp)+
    from idx_alloc_None[OF rc[unfolded r(1)] 2(2)] have "c = 0x1000" by simp
    with r 2 show ?thesis by blast
  qed
qed

lemma app_key_add_error:
  assumes "bt_mesh_provisioner_local_app_key_add e key n idx s = (Inl err, s')"
  shows "s' = s \<or> (err = EIO \<and> idx = Some 0xFFFF \<and> s' = s\<lparr>p_app_idx_next := 0x1000\<rparr> \<and>
           p_app_idx_next s < 0x1000 \<and>
           (\<exists>pk aid. p_key_of e key = Some pk \<and> calloc_ok e \<and> app_id e pk = Some aid))"
proof -
  from app_key_add_cases[of e key n idx s] assms
  consider "s' = s"
    | slot pk aid where "idx = Some 0xFFFF" "p_app_idx_next s < 0x1000"
        "p_key_of e key = Some pk" "calloc_ok e" "app_id e pk = Some aid"
        "(Inl err, s') =
          (case idx_alloc (\<lambda>i. provisioner_check_app_idx i True s \<noteq> None) (p_app_idx_next s) of
             (None, c) \<Rightarrow> (Inl EIO, s\<lparr>p_app_idx_next := c\<rparr>)
           | (Some i, c) \<Rightarrow>
               (Inr i, s\<lparr>p_app_idx_next := c, p_app_keys := (p_app_keys s)[slot :=
                 Some (app_key_commit (app_key_calloc\<lparr>app_keys0 := \<lparr>ak_id = aid, ak_val = pk\<rparr>,
                          key_net_idx := n\<rparr>) i)]\<rparr>))"
    by auto
  then show ?thesis
  proof cases
    case 1
    then show ?thesis by simp
  next
    case 2
    obtain r c where rc: "idx_alloc (\<lambda>i. provisioner_check_app_idx i True s \<noteq> None)
        (p_app_idx_next s) = (r, c)" by (cases "idx_alloc (\<lambda>i. provisioner_check_app_idx i True s \<noteq> None)
        (p_app_idx_next s)")
    with 2(6) have r: "r = None" "err = EIO" "s' = s\<lparr>p_app_idx_next := c\<rparr>"
      by (cases r; simp)+
    from idx_alloc_None[OF rc[unfolded r(1)] 2(2)] have "c = 0x1000" by simp
    with r 2 show ?thesis by blast
  qed
qed

text \<open>
  C6. \<open>-ENOMEM\<close> is the return value for a full table and for a failed allocation;
  \<open>-EIO\<close> is the return value for a failed random generation or key derivation. In
  both add functions a call that returns \<open>-ENOMEM\<close>, and a call in which the random
  generation or the derivation fails, leaves the whole state as it was; and after any
  error return the two key tables and the model bindings are as before the call.
\<close>

theorem key_add_failure_leaves_store:
  "(fst (bt_mesh_provisioner_local_net_key_add e key idx s) = Inl ENOMEM \<longrightarrow>
      snd (bt_mesh_provisioner_local_net_key_add e key idx s) = s) \<and>
   (p_key_of e key = None \<or> (\<exists>pk. p_key_of e key = Some pk \<and> net_keys_create e pk = None) \<longrightarrow>
      snd (bt_mesh_provisioner_local_net_key_add e key idx s) = s) \<and>
   (\<forall>err. fst (bt_mesh_provisioner_local_net_key_add e key idx s) = Inl err \<longrightarrow>
      p_sub (snd (bt_mesh_provisioner_local_net_key_add e key idx s)) = p_sub s \<and>
      p_app_keys (snd (bt_mesh_provisioner_local_net_key_add e key idx s)) = p_app_keys s \<and>
      elems (snd (bt_mesh_provisioner_local_net_key_add e key idx s)) = elems s) \<and>
   (fst (bt_mesh_provisioner_local_app_key_add e key n idx s) = Inl ENOMEM \<longrightarrow>
      snd (bt_mesh_provisioner_local_app_key_add e key n idx s) = s) \<and>
   (p_key_of e key = None \<or> (\<exists>pk. p_key_of e key = Some pk \<and> app_id e pk = None) \<longrightarrow>
      snd (bt_mesh_provisioner_local_app_key_add e key n idx s) = s) \<and>
   (\<forall>err. fst (bt_mesh_provisioner_local_app_key_add e key n idx s) = Inl err \<longrightarrow>
      p_sub (snd (bt_mesh_provisioner_local_app_key_add e key n idx s)) = p_sub s \<and>
      p_app_keys (snd (bt_mesh_provisioner_local_app_key_add e key n idx s)) = p_app_keys s \<and>
      elems (snd (bt_mesh_provisioner_local_app_key_add e key n idx s)) = elems s)"
proof (intro conjI impI allI)
  assume "fst (bt_mesh_provisioner_local_net_key_add e key idx s) = Inl ENOMEM"
  then have "bt_mesh_provisioner_local_net_key_add e key idx s =
     (Inl ENOMEM, snd (bt_mesh_provisioner_local_net_key_add e key idx s))"
    by (metis prod.collapse)
  from net_key_add_error[OF this]
  show "snd (bt_mesh_provisioner_local_net_key_add e key idx s) = s" by auto
next
  assume h: "p_key_of e key = None \<or> (\<exists>pk. p_key_of e key = Some pk \<and> net_keys_create e pk = None)"
  show "snd (bt_mesh_provisioner_local_net_key_add e key idx s) = s"
    using net_key_add_cases[of e key idx s] h by auto
next
  fix err assume "fst (bt_mesh_provisioner_local_net_key_add e key idx s) = Inl err"
  then have "bt_mesh_provisioner_local_net_key_add e key idx s =
     (Inl err, snd (bt_mesh_provisioner_local_net_key_add e key idx s))"
    by (metis prod.collapse)
  from net_key_add_error[OF this]
  have "snd (bt_mesh_provisioner_local_net_key_add e key idx s) = s \<or>
        snd (bt_mesh_provisioner_local_net_key_add e key idx s) = s\<lparr>p_net_idx_next := 0x1000\<rparr>"
    by blast
  then show "p_sub (snd (bt_mesh_provisioner_local_net_key_add e key idx s)) = p_sub s"
    "p_app_keys (snd (bt_mesh_provisioner_local_net_key_add e key idx s)) = p_app_keys s"
    "elems (snd (bt_mesh_provisioner_local_net_key_add e key idx s)) = elems s"
    by auto
next
  assume "fst (bt_mesh_provisioner_local_app_key_add e key n idx s) = Inl ENOMEM"
  then have "bt_mesh_provisioner_local_app_key_add e key n idx s =
     (Inl ENOMEM, snd (bt_mesh_provisioner_local_app_key_add e key n idx s))"
    by (metis prod.collapse)
  from app_key_add_error[OF this]
  show "snd (bt_mesh_provisioner_local_app_key_add e key n idx s) = s" by auto
next
  assume h: "p_key_of e key = None \<or> (\<exists>pk. p_key_of e key = Some pk \<and> app_id e pk = None)"
  show "snd (bt_mesh_provisioner_local_app_key_add e key n idx s) = s"
    using app_key_add_cases[of e key n idx s] h by auto
next
  fix err assume "fst (bt_mesh_provisioner_local_app_key_add e key n idx s) = Inl err"
  then have "bt_mesh_provisioner_local_app_key_add e key n idx s =
     (Inl err, snd (bt_mesh_provisioner_local_app_key_add e key n idx s))"
    by (metis prod.collapse)
  from app_key_add_error[OF this]
  have "snd (bt_mesh_provisioner_local_app_key_add e key n idx s) = s \<or>
        snd (bt_mesh_provisioner_local_app_key_add e key n idx s) = s\<lparr>p_app_idx_next := 0x1000\<rparr>"
    by blast
  then show "p_sub (snd (bt_mesh_provisioner_local_app_key_add e key n idx s)) = p_sub s"
    "p_app_keys (snd (bt_mesh_provisioner_local_app_key_add e key n idx s)) = p_app_keys s"
    "elems (snd (bt_mesh_provisioner_local_app_key_add e key n idx s)) = elems s"
    by auto
qed

lemma idx_alloc_exhausted:
  assumes "c < 0x1000" "\<forall>j. c \<le> j \<and> j < 0x1000 \<longrightarrow> used j"
  shows "idx_alloc used c = (None, 0x1000)"
proof (cases "idx_alloc used c")
  case (Pair r c')
  show ?thesis
  proof (cases r)
    case None
    with Pair idx_alloc_None[of used c c'] assms(1) show ?thesis by simp
  next
    case (Some i)
    with Pair idx_alloc_Some[of used c i c'] assms show ?thesis by auto
  qed
qed

lemma idx_alloc_free:
  assumes "c < 0x1000" "\<exists>j. c \<le> j \<and> j < 0x1000 \<and> \<not> used j"
  shows "\<exists>i. idx_alloc used c = (Some i, i)"
proof (cases "idx_alloc used c")
  case (Pair r c')
  show ?thesis
  proof (cases r)
    case None
    with Pair idx_alloc_None[of used c c'] assms show ?thesis by auto
  next
    case (Some i)
    with Pair idx_alloc_Some[of used c i c'] assms(1) show ?thesis by simp
  qed
qed

lemma net_idx_used: "(provisioner_check_net_idx i True s \<noteq> None) = net_idx_live s i"
  by (simp add: provisioner_check_net_idx_def net_idx_live_def)

lemma app_idx_used: "(provisioner_check_app_idx i True s \<noteq> None) = app_idx_live s i"
  by (simp add: provisioner_check_app_idx_def app_idx_live_def)

lemma net_key_add_auto_path:
  assumes "p_net_idx_next s < 0x1000" "provisioner_check_net_key key s = None"
    "\<not> net_idx_live s 0xFFFF" "provisioner_check_net_key_full s = Some slot"
    "p_key_of e key = Some pk" "calloc_ok e" "net_keys_create e pk = Some k0"
  shows "bt_mesh_provisioner_local_net_key_add e key (Some 0xFFFF) s =
        (case idx_alloc (net_idx_live s) (p_net_idx_next s) of
           (None, c) \<Rightarrow> (Inl EIO, s\<lparr>p_net_idx_next := c\<rparr>)
         | (Some i, c) \<Rightarrow>
             (Inr i, s\<lparr>p_net_idx_next := c, p_sub := (p_sub s)[slot :=
                 Some (net_key_commit (subnet_calloc\<lparr>sub_keys0 := k0\<rparr>) i)]\<rparr>))"
proof -
  from assms(1) have "\<not> 0x1000 \<le> p_net_idx_next s" by simp
  moreover from assms(3) have "provisioner_check_net_idx 0xFFFF True s = None"
    using net_idx_used[of "0xFFFF" s] by simp
  moreover have "(\<lambda>i. provisioner_check_net_idx i True s \<noteq> None) = net_idx_live s"
    by (rule ext) (rule net_idx_used)
  ultimately show ?thesis using assms(2,4-7)
    unfolding bt_mesh_provisioner_local_net_key_add_def by (simp add: Let_def)
qed

lemma app_key_add_auto_path:
  assumes "p_app_idx_next s < 0x1000" "provisioner_check_app_key key s = None"
    "provisioner_check_net_idx n False s = None"
    "\<not> app_idx_live s 0xFFFF" "provisioner_check_app_key_full s = Some slot"
    "p_key_of e key = Some pk" "calloc_ok e" "app_id e pk = Some aid"
  shows "bt_mesh_provisioner_local_app_key_add e key n (Some 0xFFFF) s =
        (case idx_alloc (app_idx_live s) (p_app_idx_next s) of
           (None, c) \<Rightarrow> (Inl EIO, s\<lparr>p_app_idx_next := c\<rparr>)
         | (Some i, c) \<Rightarrow>
             (Inr i, s\<lparr>p_app_idx_next := c, p_app_keys := (p_app_keys s)[slot :=
                 Some (app_key_commit (app_key_calloc\<lparr>app_keys0 := \<lparr>ak_id = aid, ak_val = pk\<rparr>,
                          key_net_idx := n\<rparr>) i)]\<rparr>))"
proof -
  from assms(1) have "\<not> 0x1000 \<le> p_app_idx_next s" by simp
  moreover from assms(4) have "provisioner_check_app_idx 0xFFFF True s = None"
    using app_idx_used[of "0xFFFF" s] by simp
  moreover have "(\<lambda>i. provisioner_check_app_idx i True s \<noteq> None) = app_idx_live s"
    by (rule ext) (rule app_idx_used)
  ultimately show ?thesis using assms(2,3,5-8)
    unfolding bt_mesh_provisioner_local_app_key_add_def by (simp add: Let_def)
qed

lemma net_key_add_auto_success:
  assumes "provisioner_check_net_key key s = None"
    and "bt_mesh_provisioner_local_net_key_add e key (Some 0xFFFF) s = (Inr i, s')"
  shows "i < 0x1000 \<and> p_net_idx_next s \<le> i \<and> \<not> net_idx_live s i \<and>
         (\<forall>j. p_net_idx_next s \<le> j \<and> j < i \<longrightarrow> net_idx_live s j) \<and>
         p_net_idx_next s' = i \<and>
         (\<exists>slot<length (p_sub s). p_sub s ! slot = None \<and>
            (\<exists>row. sub_net_idx row = i \<and> p_sub s' = (p_sub s)[slot := Some row]))"
proof -
  from net_key_add_cases[of e key "Some 0xFFFF" s] assms
  obtain slot pk k0 where pre: "p_net_idx_next s < 0x1000"
      "provisioner_check_net_idx 0xFFFF True s = None"
      "provisioner_check_net_key_full s = Some slot"
      "p_key_of e key = Some pk" "calloc_ok e" "net_keys_create e pk = Some k0"
    by auto
  from pre(2) have nl: "\<not> net_idx_live s 0xFFFF" using net_idx_used[of "0xFFFF" s] by simp
  note path = net_key_add_auto_path[OF pre(1) assms(1) nl pre(3-6)]
  obtain r c where rc: "idx_alloc (net_idx_live s) (p_net_idx_next s) = (r, c)"
    by (cases "idx_alloc (net_idx_live s) (p_net_idx_next s)")
  with path assms(2) have r: "r = Some i"
    and s': "s' = s\<lparr>p_net_idx_next := c, p_sub := (p_sub s)[slot :=
                 Some (net_key_commit (subnet_calloc\<lparr>sub_keys0 := k0\<rparr>) i)]\<rparr>"
    by (cases r; simp)+
  from idx_alloc_Some[OF rc[unfolded r] pre(1)]
  have al: "p_net_idx_next s \<le> i" "i < 0x1000" "\<not> net_idx_live s i"
    "\<forall>j. p_net_idx_next s \<le> j \<and> j < i \<longrightarrow> net_idx_live s j" "c = i" by simp_all
  from pre(3) have sl: "slot < length (p_sub s)" "p_sub s ! slot = None"
    using first_free_Some[of "p_sub s" slot] by (simp_all add: provisioner_check_net_key_full_def)
  have row: "sub_net_idx (net_key_commit (subnet_calloc\<lparr>sub_keys0 := k0\<rparr>) i) = i"
    by (simp add: net_key_commit_def)
  have "\<exists>slot<length (p_sub s). p_sub s ! slot = None \<and>
            (\<exists>row. sub_net_idx row = i \<and> p_sub s' = (p_sub s)[slot := Some row])"
    using sl row s' by (intro exI[of _ slot]) auto
  moreover have "p_net_idx_next s' = i" using s' al(5) by simp
  ultimately show ?thesis using al by blast
qed

lemma app_key_add_auto_success:
  assumes "provisioner_check_app_key key s = None"
    and "bt_mesh_provisioner_local_app_key_add e key n (Some 0xFFFF) s = (Inr i, s')"
  shows "i < 0x1000 \<and> p_app_idx_next s \<le> i \<and> \<not> app_idx_live s i \<and>
         (\<forall>j. p_app_idx_next s \<le> j \<and> j < i \<longrightarrow> app_idx_live s j) \<and>
         p_app_idx_next s' = i \<and>
         (\<exists>slot<length (p_app_keys s). p_app_keys s ! slot = None \<and>
            (\<exists>row. key_app_idx row = i \<and> key_net_idx row = n \<and>
               p_app_keys s' = (p_app_keys s)[slot := Some row]))"
proof -
  from app_key_add_cases[of e key n "Some 0xFFFF" s] assms
  obtain slot pk aid where pre: "p_app_idx_next s < 0x1000"
      "provisioner_check_net_idx n False s = None"
      "provisioner_check_app_idx 0xFFFF True s = None"
      "provisioner_check_app_key_full s = Some slot"
      "p_key_of e key = Some pk" "calloc_ok e" "app_id e pk = Some aid"
    by auto
  from pre(3) have nl: "\<not> app_idx_live s 0xFFFF" using app_idx_used[of "0xFFFF" s] by simp
  note path = app_key_add_auto_path[OF pre(1) assms(1) pre(2) nl pre(4-7)]
  obtain r c where rc: "idx_alloc (app_idx_live s) (p_app_idx_next s) = (r, c)"
    by (cases "idx_alloc (app_idx_live s) (p_app_idx_next s)")
  with path assms(2) have r: "r = Some i"
    and s': "s' = s\<lparr>p_app_idx_next := c, p_app_keys := (p_app_keys s)[slot :=
                 Some (app_key_commit (app_key_calloc\<lparr>app_keys0 := \<lparr>ak_id = aid, ak_val = pk\<rparr>,
                          key_net_idx := n\<rparr>) i)]\<rparr>"
    by (cases r; simp)+
  from idx_alloc_Some[OF rc[unfolded r] pre(1)]
  have al: "p_app_idx_next s \<le> i" "i < 0x1000" "\<not> app_idx_live s i"
    "\<forall>j. p_app_idx_next s \<le> j \<and> j < i \<longrightarrow> app_idx_live s j" "c = i" by simp_all
  from pre(4) have sl: "slot < length (p_app_keys s)" "p_app_keys s ! slot = None"
    using first_free_Some[of "p_app_keys s" slot]
    by (simp_all add: provisioner_check_app_key_full_def)
  have row: "key_app_idx (app_key_commit (app_key_calloc\<lparr>app_keys0 := \<lparr>ak_id = aid, ak_val = pk\<rparr>,
                          key_net_idx := n\<rparr>) i) = i"
     "key_net_idx (app_key_commit (app_key_calloc\<lparr>app_keys0 := \<lparr>ak_id = aid, ak_val = pk\<rparr>,
                          key_net_idx := n\<rparr>) i) = n"
    by (simp_all add: app_key_commit_def)
  have "\<exists>slot<length (p_app_keys s). p_app_keys s ! slot = None \<and>
            (\<exists>row. key_app_idx row = i \<and> key_net_idx row = n \<and>
               p_app_keys s' = (p_app_keys s)[slot := Some row])"
    using sl row s' by (intro exI[of _ slot]) auto
  moreover have "p_app_idx_next s' = i" using s' al(5) by simp
  ultimately show ?thesis using al by blast
qed

lemma full_Some: "None \<in> set xs \<Longrightarrow> \<exists>j. find (\<lambda>i. xs ! i = None) [0..<length xs] = Some j"
  using first_free_None[of xs] by auto

lemma net_key_add_auto_outcome:
  assumes "p_net_idx_next s < 0x1000" "provisioner_check_net_key key s = None"
    "\<not> net_idx_live s 0xFFFF" "None \<in> set (p_sub s)"
    "p_key_of e key = Some pk" "calloc_ok e" "net_keys_create e pk = Some k0"
  shows "((\<forall>j. p_net_idx_next s \<le> j \<and> j < 0x1000 \<longrightarrow> net_idx_live s j) \<longrightarrow>
           bt_mesh_provisioner_local_net_key_add e key (Some 0xFFFF) s =
             (Inl EIO, s\<lparr>p_net_idx_next := 0x1000\<rparr>)) \<and>
         ((\<exists>j. p_net_idx_next s \<le> j \<and> j < 0x1000 \<and> \<not> net_idx_live s j) \<longrightarrow>
           (\<exists>i s'. bt_mesh_provisioner_local_net_key_add e key (Some 0xFFFF) s = (Inr i, s')))"
proof -
  from full_Some[OF assms(4)] obtain slot where
    slot: "provisioner_check_net_key_full s = Some slot"
    by (auto simp: provisioner_check_net_key_full_def)
  note path = net_key_add_auto_path[OF assms(1-3) slot assms(5-7)]
  show ?thesis
  proof (intro conjI impI)
    assume "\<forall>j. p_net_idx_next s \<le> j \<and> j < 0x1000 \<longrightarrow> net_idx_live s j"
    from idx_alloc_exhausted[OF assms(1) this] path
    show "bt_mesh_provisioner_local_net_key_add e key (Some 0xFFFF) s =
             (Inl EIO, s\<lparr>p_net_idx_next := 0x1000\<rparr>)" by simp
  next
    assume "\<exists>j. p_net_idx_next s \<le> j \<and> j < 0x1000 \<and> \<not> net_idx_live s j"
    from idx_alloc_free[OF assms(1) this] path
    show "\<exists>i s'. bt_mesh_provisioner_local_net_key_add e key (Some 0xFFFF) s = (Inr i, s')"
      by auto
  qed
qed

lemma app_key_add_auto_outcome:
  assumes "p_app_idx_next s < 0x1000" "provisioner_check_app_key key s = None"
    "provisioner_check_net_idx n False s = None"
    "\<not> app_idx_live s 0xFFFF" "None \<in> set (p_app_keys s)"
    "p_key_of e key = Some pk" "calloc_ok e" "app_id e pk = Some aid"
  shows "((\<forall>j. p_app_idx_next s \<le> j \<and> j < 0x1000 \<longrightarrow> app_idx_live s j) \<longrightarrow>
           bt_mesh_provisioner_local_app_key_add e key n (Some 0xFFFF) s =
             (Inl EIO, s\<lparr>p_app_idx_next := 0x1000\<rparr>)) \<and>
         ((\<exists>j. p_app_idx_next s \<le> j \<and> j < 0x1000 \<and> \<not> app_idx_live s j) \<longrightarrow>
           (\<exists>i s'. bt_mesh_provisioner_local_app_key_add e key n (Some 0xFFFF) s = (Inr i, s')))"
proof -
  from full_Some[OF assms(5)] obtain slot where
    slot: "provisioner_check_app_key_full s = Some slot"
    by (auto simp: provisioner_check_app_key_full_def)
  note path = app_key_add_auto_path[OF assms(1-4) slot assms(6-8)]
  show ?thesis
  proof (intro conjI impI)
    assume "\<forall>j. p_app_idx_next s \<le> j \<and> j < 0x1000 \<longrightarrow> app_idx_live s j"
    from idx_alloc_exhausted[OF assms(1) this] path
    show "bt_mesh_provisioner_local_app_key_add e key n (Some 0xFFFF) s =
             (Inl EIO, s\<lparr>p_app_idx_next := 0x1000\<rparr>)" by simp
  next
    assume "\<exists>j. p_app_idx_next s \<le> j \<and> j < 0x1000 \<and> \<not> app_idx_live s j"
    from idx_alloc_free[OF assms(1) this] path
    show "\<exists>i s'. bt_mesh_provisioner_local_app_key_add e key n (Some 0xFFFF) s = (Inr i, s')"
      by auto
  qed
qed

text \<open>
  C5. With the index 0xFFFF (automatic) and key bytes that match no stored key, a
  successful add returns the smallest index at or after the cursor that no live row
  carries; the index is below 0x1000, the cursor is left on it (it never moves back),
  and the new row, carrying that index, fills a row that was free. When the checks
  before the allocation pass and the collaborators succeed, the add succeeds if some
  index from the cursor up to 0xFFF is unused, and otherwise returns \<open>-EIO\<close> with the
  tables unchanged and the cursor at 0x1000. This holds for the network key add and for
  the application key add.
\<close>

theorem key_add_auto_index:
  "(provisioner_check_net_key key s = None \<longrightarrow>
     (\<forall>i s'. bt_mesh_provisioner_local_net_key_add e key (Some 0xFFFF) s = (Inr i, s') \<longrightarrow>
        i < 0x1000 \<and> p_net_idx_next s \<le> i \<and> \<not> net_idx_live s i \<and>
        (\<forall>j. p_net_idx_next s \<le> j \<and> j < i \<longrightarrow> net_idx_live s j) \<and>
        p_net_idx_next s' = i \<and>
        (\<exists>slot<length (p_sub s). p_sub s ! slot = None \<and>
           (\<exists>row. sub_net_idx row = i \<and> p_sub s' = (p_sub s)[slot := Some row]))) \<and>
     (p_net_idx_next s < 0x1000 \<and> \<not> net_idx_live s 0xFFFF \<and> None \<in> set (p_sub s) \<and>
      p_key_of e key = Some pk \<and> calloc_ok e \<and> net_keys_create e pk = Some k0 \<longrightarrow>
        ((\<forall>j. p_net_idx_next s \<le> j \<and> j < 0x1000 \<longrightarrow> net_idx_live s j) \<longrightarrow>
           bt_mesh_provisioner_local_net_key_add e key (Some 0xFFFF) s =
             (Inl EIO, s\<lparr>p_net_idx_next := 0x1000\<rparr>)) \<and>
        ((\<exists>j. p_net_idx_next s \<le> j \<and> j < 0x1000 \<and> \<not> net_idx_live s j) \<longrightarrow>
           (\<exists>i s'. bt_mesh_provisioner_local_net_key_add e key (Some 0xFFFF) s = (Inr i, s'))))) \<and>
   (provisioner_check_app_key key s = None \<longrightarrow>
     (\<forall>i s'. bt_mesh_provisioner_local_app_key_add e key n (Some 0xFFFF) s = (Inr i, s') \<longrightarrow>
        i < 0x1000 \<and> p_app_idx_next s \<le> i \<and> \<not> app_idx_live s i \<and>
        (\<forall>j. p_app_idx_next s \<le> j \<and> j < i \<longrightarrow> app_idx_live s j) \<and>
        p_app_idx_next s' = i \<and>
        (\<exists>slot<length (p_app_keys s). p_app_keys s ! slot = None \<and>
           (\<exists>row. key_app_idx row = i \<and> key_net_idx row = n \<and>
              p_app_keys s' = (p_app_keys s)[slot := Some row]))) \<and>
     (p_app_idx_next s < 0x1000 \<and> provisioner_check_net_idx n False s = None \<and>
      \<not> app_idx_live s 0xFFFF \<and> None \<in> set (p_app_keys s) \<and>
      p_key_of e key = Some pk \<and> calloc_ok e \<and> app_id e pk = Some aid \<longrightarrow>
        ((\<forall>j. p_app_idx_next s \<le> j \<and> j < 0x1000 \<longrightarrow> app_idx_live s j) \<longrightarrow>
           bt_mesh_provisioner_local_app_key_add e key n (Some 0xFFFF) s =
             (Inl EIO, s\<lparr>p_app_idx_next := 0x1000\<rparr>)) \<and>
        ((\<exists>j. p_app_idx_next s \<le> j \<and> j < 0x1000 \<and> \<not> app_idx_live s j) \<longrightarrow>
           (\<exists>i s'. bt_mesh_provisioner_local_app_key_add e key n (Some 0xFFFF) s = (Inr i, s')))))"
  (is "(?A \<longrightarrow> ?N1 \<and> ?N2) \<and> (?B \<longrightarrow> ?A1 \<and> ?A2)")
proof (rule conjI; rule impI; rule conjI)
  assume a: ?A
  show ?N1
  proof (intro allI impI)
    fix i s'
    assume "bt_mesh_provisioner_local_net_key_add e key (Some 0xFFFF) s = (Inr i, s')"
    from net_key_add_auto_success[OF a this]
    show "i < 0x1000 \<and> p_net_idx_next s \<le> i \<and> \<not> net_idx_live s i \<and>
        (\<forall>j. p_net_idx_next s \<le> j \<and> j < i \<longrightarrow> net_idx_live s j) \<and>
        p_net_idx_next s' = i \<and>
        (\<exists>slot<length (p_sub s). p_sub s ! slot = None \<and>
           (\<exists>row. sub_net_idx row = i \<and> p_sub s' = (p_sub s)[slot := Some row]))" .
  qed
next
  assume a: ?A
  show ?N2
  proof (rule impI)
    assume b: "p_net_idx_next s < 0x1000 \<and> \<not> net_idx_live s 0xFFFF \<and> None \<in> set (p_sub s) \<and>
      p_key_of e key = Some pk \<and> calloc_ok e \<and> net_keys_create e pk = Some k0"
    then have b': "p_net_idx_next s < 0x1000" "\<not> net_idx_live s 0xFFFF" "None \<in> set (p_sub s)"
      "p_key_of e key = Some pk" "calloc_ok e" "net_keys_create e pk = Some k0" by simp_all
    from net_key_add_auto_outcome[OF b'(1) a b'(2-6)]
    show "((\<forall>j. p_net_idx_next s \<le> j \<and> j < 0x1000 \<longrightarrow> net_idx_live s j) \<longrightarrow>
           bt_mesh_provisioner_local_net_key_add e key (Some 0xFFFF) s =
             (Inl EIO, s\<lparr>p_net_idx_next := 0x1000\<rparr>)) \<and>
        ((\<exists>j. p_net_idx_next s \<le> j \<and> j < 0x1000 \<and> \<not> net_idx_live s j) \<longrightarrow>
           (\<exists>i s'. bt_mesh_provisioner_local_net_key_add e key (Some 0xFFFF) s = (Inr i, s')))" .
  qed
next
  assume a: ?B
  show ?A1
  proof (intro allI impI)
    fix i s'
    assume "bt_mesh_provisioner_local_app_key_add e key n (Some 0xFFFF) s = (Inr i, s')"
    from app_key_add_auto_success[OF a this]
    show "i < 0x1000 \<and> p_app_idx_next s \<le> i \<and> \<not> app_idx_live s i \<and>
        (\<forall>j. p_app_idx_next s \<le> j \<and> j < i \<longrightarrow> app_idx_live s j) \<and>
        p_app_idx_next s' = i \<and>
        (\<exists>slot<length (p_app_keys s). p_app_keys s ! slot = None \<and>
           (\<exists>row. key_app_idx row = i \<and> key_net_idx row = n \<and>
              p_app_keys s' = (p_app_keys s)[slot := Some row]))" .
  qed
next
  assume a: ?B
  show ?A2
  proof (rule impI)
    assume b: "p_app_idx_next s < 0x1000 \<and> provisioner_check_net_idx n False s = None \<and>
      \<not> app_idx_live s 0xFFFF \<and> None \<in> set (p_app_keys s) \<and>
      p_key_of e key = Some pk \<and> calloc_ok e \<and> app_id e pk = Some aid"
    then have b': "p_app_idx_next s < 0x1000" "provisioner_check_net_idx n False s = None"
      "\<not> app_idx_live s 0xFFFF" "None \<in> set (p_app_keys s)"
      "p_key_of e key = Some pk" "calloc_ok e" "app_id e pk = Some aid" by simp_all
    from app_key_add_auto_outcome[OF b'(1) a b'(2-7)]
    show "((\<forall>j. p_app_idx_next s \<le> j \<and> j < 0x1000 \<longrightarrow> app_idx_live s j) \<longrightarrow>
           bt_mesh_provisioner_local_app_key_add e key n (Some 0xFFFF) s =
             (Inl EIO, s\<lparr>p_app_idx_next := 0x1000\<rparr>)) \<and>
        ((\<exists>j. p_app_idx_next s \<le> j \<and> j < 0x1000 \<and> \<not> app_idx_live s j) \<longrightarrow>
           (\<exists>i s'. bt_mesh_provisioner_local_app_key_add e key n (Some 0xFFFF) s = (Inr i, s')))" .
  qed
qed

lemma net_idx_live_ex:
  "net_idx_live ex_keystore j \<longleftrightarrow> j = 0 \<or> j = 1"
  "net_idx_live ex_keystore_last j \<longleftrightarrow> j = 0xFFF"
  by (auto simp: net_idx_live_def ex_keystore_simps ex_keystore_last_simps ex_subnet_simps)

theorem key_add_auto_index_witness:
  "(\<exists>s'. bt_mesh_provisioner_local_net_key_add ex_env (Some (replicate 16 4)) (Some 0xFFFF)
           ex_keystore = (Inr 2, s') \<and> p_net_idx_next s' = 2) \<and>
   bt_mesh_provisioner_local_net_key_add ex_env (Some (replicate 16 4)) (Some 0xFFFF)
     ex_keystore_last = (Inl EIO, ex_keystore_last\<lparr>p_net_idx_next := 0x1000\<rparr>)"
proof -
  let ?k = "Some (replicate 16 4)"
  note t = key_add_auto_index[of ?k _ ex_env "replicate 16 4" "\<lparr>sk_net = replicate 16 4, sk_nid = 0\<rparr>"]
  have env: "p_key_of ex_env ?k = Some (replicate 16 4) \<and> calloc_ok ex_env \<and>
     net_keys_create ex_env (replicate 16 4) = Some \<lparr>sk_net = replicate 16 4, sk_nid = 0\<rparr>"
    by (simp add: p_key_of_def ex_env_simps)
  have c1: "provisioner_check_net_key ?k ex_keystore = None"
    by (simp add: provisioner_check_net_key_def ex_keystore_simps ex_subnet_simps memeq_def)
  have c2: "provisioner_check_net_key ?k ex_keystore_last = None"
    by (simp add: provisioner_check_net_key_def ex_keystore_last_simps ex_subnet_simps memeq_def)
  have p1: "p_net_idx_next ex_keystore < 0x1000 \<and> \<not> net_idx_live ex_keystore 0xFFFF \<and>
      None \<in> set (p_sub ex_keystore)"
    by (simp add: net_idx_live_ex) (simp add: ex_keystore_simps)
  have p2: "p_net_idx_next ex_keystore_last < 0x1000 \<and> \<not> net_idx_live ex_keystore_last 0xFFFF \<and>
      None \<in> set (p_sub ex_keystore_last)"
    by (simp add: net_idx_live_ex) (simp add: ex_keystore_last_simps)
  have free: "\<exists>j. p_net_idx_next ex_keystore \<le> j \<and> j < 0x1000 \<and> \<not> net_idx_live ex_keystore j"
    by (rule exI[of _ 2]) (simp add: net_idx_live_ex ex_keystore_simps)
  from t[of ex_keystore] c1 p1 env free obtain i s' where
    r: "bt_mesh_provisioner_local_net_key_add ex_env ?k (Some 0xFFFF) ex_keystore = (Inr i, s')"
    by blast
  with t[of ex_keystore] c1 have i: "p_net_idx_next ex_keystore \<le> i" "\<not> net_idx_live ex_keystore i"
    "\<forall>j. p_net_idx_next ex_keystore \<le> j \<and> j < i \<longrightarrow> net_idx_live ex_keystore j"
    "p_net_idx_next s' = i" by blast+
  have "i = 2"
  proof (rule ccontr)
    assume "i \<noteq> 2"
    with i(1,2) have "2 < i" by (simp add: net_idx_live_ex ex_keystore_simps)
    with i(3) have "net_idx_live ex_keystore 2" by (simp add: ex_keystore_simps)
    then show False by (simp add: net_idx_live_ex)
  qed
  with r i(4) have first: "\<exists>s'. bt_mesh_provisioner_local_net_key_add ex_env ?k (Some 0xFFFF)
           ex_keystore = (Inr 2, s') \<and> p_net_idx_next s' = 2"
    by (intro exI[of _ s']) simp
  have full: "\<forall>j. p_net_idx_next ex_keystore_last \<le> j \<and> j < 0x1000 \<longrightarrow>
      net_idx_live ex_keystore_last j"
    by (auto simp: net_idx_live_ex ex_keystore_last_simps)
  from t[of ex_keystore_last] c2 p2 env full
  have "bt_mesh_provisioner_local_net_key_add ex_env ?k (Some 0xFFFF) ex_keystore_last =
     (Inl EIO, ex_keystore_last\<lparr>p_net_idx_next := 0x1000\<rparr>)" by blast
  with first show ?thesis by blast
qed

text \<open>
  C6 at concrete inputs: a failed allocation and a failed derivation, each with a free
  row and an unused index, return the error and leave the key store as it was.
\<close>

theorem key_add_failure_leaves_store_witness:
  "bt_mesh_provisioner_local_net_key_add (ex_env\<lparr>calloc_ok := False\<rparr>)
     (Some (replicate 16 4)) (Some 9) ex_keystore = (Inl ENOMEM, ex_keystore) \<and>
   bt_mesh_provisioner_local_app_key_add (ex_env\<lparr>app_id := (\<lambda>k. None)\<rparr>)
     (Some (replicate 16 4)) 1 (Some 9) ex_keystore = (Inl EIO, ex_keystore)"
proof -
  have a: "fst (bt_mesh_provisioner_local_net_key_add (ex_env\<lparr>calloc_ok := False\<rparr>)
     (Some (replicate 16 4)) (Some 9) ex_keystore) = Inl ENOMEM"
    by (simp add: bt_mesh_provisioner_local_net_key_add_def provisioner_check_net_key_def
        provisioner_check_net_idx_def provisioner_check_net_key_full_def p_key_of_def
        ex_keystore_simps ex_subnet_simps ex_env_def memeq_def upt_conv_Cons)
  have b: "fst (bt_mesh_provisioner_local_app_key_add (ex_env\<lparr>app_id := (\<lambda>k. None)\<rparr>)
     (Some (replicate 16 4)) 1 (Some 9) ex_keystore) = Inl EIO"
    by (simp add: bt_mesh_provisioner_local_app_key_add_def provisioner_check_app_key_def
        provisioner_check_net_idx_def provisioner_check_app_idx_def
        provisioner_check_app_key_full_def p_key_of_def
        ex_keystore_simps ex_subnet_simps ex_app_key_simps ex_env_def memeq_def upt_conv_Cons)
  have pk: "\<exists>pk. p_key_of (ex_env\<lparr>app_id := (\<lambda>k. None)\<rparr>) (Some (replicate 16 4)) = Some pk \<and>
     app_id (ex_env\<lparr>app_id := (\<lambda>k. None)\<rparr>) pk = None"
    by (simp add: p_key_of_def)
  from key_add_failure_leaves_store[of "ex_env\<lparr>calloc_ok := False\<rparr>" "Some (replicate 16 4)"
      "Some 9" ex_keystore] a
  have a': "snd (bt_mesh_provisioner_local_net_key_add (ex_env\<lparr>calloc_ok := False\<rparr>)
     (Some (replicate 16 4)) (Some 9) ex_keystore) = ex_keystore" by blast
  from key_add_failure_leaves_store[of "ex_env\<lparr>app_id := (\<lambda>k. None)\<rparr>" "Some (replicate 16 4)"
      "Some 9" ex_keystore 1] pk
  have b': "snd (bt_mesh_provisioner_local_app_key_add (ex_env\<lparr>app_id := (\<lambda>k. None)\<rparr>)
     (Some (replicate 16 4)) 1 (Some 9) ex_keystore) = ex_keystore" by blast
  from a a' b b' show ?thesis by (metis prod.collapse)
qed

lemma model_pub_clear_keys: "mod_keys (model_pub_clear m) = mod_keys m"
  by (simp add: model_pub_clear_def split: option.split)

lemma model_unbind_slot_keys:
  "mod_keys (model_unbind_slot a i m) =
     (if mod_keys m ! i = a then (mod_keys m)[i := BLE_MESH_KEY_UNUSED] else mod_keys m)"
  by (simp add: model_unbind_slot_def model_pub_clear_keys)

lemma model_unbind_fold:
  "n \<le> length (mod_keys m) \<Longrightarrow>
   length (mod_keys (fold (model_unbind_slot a) [0..<n] m)) = length (mod_keys m) \<and>
   (\<forall>j<length (mod_keys m). mod_keys (fold (model_unbind_slot a) [0..<n] m) ! j =
      (if j < n \<and> mod_keys m ! j = a then BLE_MESH_KEY_UNUSED else mod_keys m ! j))"
proof (induction n)
  case 0
  then show ?case by simp
next
  case (Suc n)
  let ?m1 = "fold (model_unbind_slot a) [0..<n] m"
  from Suc have ih: "length (mod_keys ?m1) = length (mod_keys m)"
    "\<forall>j<length (mod_keys m). mod_keys ?m1 ! j =
      (if j < n \<and> mod_keys m ! j = a then BLE_MESH_KEY_UNUSED else mod_keys m ! j)"
    by simp_all
  from Suc.prems have n: "n < length (mod_keys m)" by simp
  with ih(2) have at: "mod_keys ?m1 ! n = mod_keys m ! n" by simp
  have step: "fold (model_unbind_slot a) [0..<Suc n] m = model_unbind_slot a n ?m1" by simp
  show ?case unfolding step model_unbind_slot_keys at
    using ih n by (auto simp: nth_list_update less_Suc_eq)
qed

lemma model_unbind_keys:
  "mod_keys (model_unbind m a) = map (\<lambda>k. if k = a then BLE_MESH_KEY_UNUSED else k) (mod_keys m)"
  using model_unbind_fold[of "length (mod_keys m)" m a]
  by (auto simp: model_unbind_def intro!: nth_equalityI)

lemma slot_values_unbind:
  "slot_values (bt_mesh_model_foreach (\<lambda>m. model_unbind m a) es) =
     map (\<lambda>k. if k = a then BLE_MESH_KEY_UNUSED else k) (slot_values es)"
  by (simp add: slot_values_def bt_mesh_model_foreach_def map_concat comp_def model_unbind_keys)

lemma first_slot_eq:
  assumes "i < length xs" "slot_has p xs i" "\<forall>j<i. \<not> slot_has p xs j"
  shows "first_slot p xs = Some i"
  unfolding first_slot_def find_Some_iff
  using assms by (intro exI[of _ i]) simp

lemma first_slot_Some:
  "first_slot p xs = Some i \<Longrightarrow> i < length xs \<and> slot_has p xs i \<and> (\<forall>j<i. \<not> slot_has p xs j)"
  by (auto simp: first_slot_def find_Some_iff)

lemma first_slot_None:
  "first_slot p xs = None \<longleftrightarrow> \<not> list_ex p (live xs)"
proof -
  have "(\<exists>v. Some v \<in> set xs \<and> p v) \<longleftrightarrow> (\<exists>i<length xs. slot_has p xs i)"
    by (auto simp: in_set_conv_nth slot_has_def split: option.splits)
  then show ?thesis
    by (auto simp: first_slot_def find_None_iff list_ex_iff set_live)
qed

lemma app_key_delete_hit:
  assumes "provisioner_check_net_idx n False s = None"
    and "i < length (p_app_keys s)" "p_app_keys s ! i = Some key"
    and "key_net_idx key = n" "key_app_idx key = a"
    and "\<forall>j<i. \<not> slot_has (\<lambda>k. key_net_idx k = n) (p_app_keys s) j"
  shows "bt_mesh_provisioner_local_app_key_delete n a s =
     (Inr (), s\<lparr>elems := bt_mesh_model_foreach (\<lambda>m. model_unbind m a) (elems s),
                p_app_keys := (p_app_keys s)[i := None]\<rparr>)"
proof -
  have "Some key \<in> set (p_app_keys s)" using assms(2,3) by (metis nth_mem)
  then have ca: "provisioner_check_app_idx a False s = None"
    using assms(5) by (auto simp: check_app_idx_exists)
  have hit: "slot_has (\<lambda>k. key_net_idx k = n \<and> key_app_idx k = a) (p_app_keys s) i"
    using assms(3-5) by (simp add: slot_has_def)
  have no: "\<forall>j<i. \<not> slot_has (\<lambda>k. key_net_idx k = n \<and> key_app_idx k = a) (p_app_keys s) j"
    using assms(6) by (auto simp: slot_has_def split: option.splits)
  from first_slot_eq[OF assms(2) hit no] assms(1) ca show ?thesis
    by (simp add: bt_mesh_provisioner_local_app_key_delete_def)
qed

lemma net_key_delete_slot_simps:
  "net_key_delete_slot n j None = None"
  "net_key_delete_slot n j (Some s) =
     (case p_app_keys s ! j of
        None \<Rightarrow> None
      | Some key \<Rightarrow>
          if key_net_idx key = n
          then Some (snd (bt_mesh_provisioner_local_app_key_delete
                            (key_net_idx key) (key_app_idx key) s))
          else Some s)"
  by (simp_all add: net_key_delete_slot_def)

text \<open>
  The state after the inner loop of the network key delete has visited the slots below
  \<open>m\<close>: every visited slot was occupied; the visited keys of the subnet are gone and
  every other slot is as before; the subnet table and the cursors are untouched; and a
  model slot holds either the unused marker or a value it held before that is not the
  index of a deleted key.
\<close>

lemma cascade_upto:
  assumes live: "provisioner_check_net_idx n False s = None"
  shows "m \<le> length (p_app_keys s) \<Longrightarrow>
     fold (net_key_delete_slot n) [0..<m] (Some s) = Some s1 \<Longrightarrow>
     p_sub s1 = p_sub s \<and> p_net_idx_next s1 = p_net_idx_next s \<and>
     p_app_idx_next s1 = p_app_idx_next s \<and>
     (\<forall>j<m. p_app_keys s ! j \<noteq> None) \<and>
     length (p_app_keys s1) = length (p_app_keys s) \<and>
     (\<forall>j<length (p_app_keys s). p_app_keys s1 ! j =
        (if j < m then cascade_row n (p_app_keys s ! j) else p_app_keys s ! j)) \<and>
     (\<forall>v \<in> set (slot_values (elems s1)). v \<noteq> BLE_MESH_KEY_UNUSED \<longrightarrow>
        v \<in> set (slot_values (elems s)) \<and>
        (\<forall>j<m. \<forall>k. p_app_keys s ! j = Some k \<and> key_net_idx k = n \<longrightarrow> key_app_idx k \<noteq> v))"
proof (induction m arbitrary: s1)
  case 0
  then show ?case by simp
next
  case (Suc m)
  let ?ks = "p_app_keys s"
  from Suc.prems(1) have m: "m < length ?ks" by simp
  have step: "fold (net_key_delete_slot n) [0..<Suc m] (Some s) =
      net_key_delete_slot n m (fold (net_key_delete_slot n) [0..<m] (Some s))" by simp
  with Suc.prems(2) obtain s0 where s0: "fold (net_key_delete_slot n) [0..<m] (Some s) = Some s0"
    by (cases "fold (net_key_delete_slot n) [0..<m] (Some s)")
       (simp_all add: net_key_delete_slot_simps)
  from Suc.IH[OF _ s0] m have ih:
    "p_sub s0 = p_sub s" "p_net_idx_next s0 = p_net_idx_next s"
    "p_app_idx_next s0 = p_app_idx_next s"
    "\<forall>j<m. ?ks ! j \<noteq> None" "length (p_app_keys s0) = length ?ks"
    "\<forall>j<length ?ks. p_app_keys s0 ! j = (if j < m then cascade_row n (?ks ! j) else ?ks ! j)"
    "\<forall>v \<in> set (slot_values (elems s0)). v \<noteq> BLE_MESH_KEY_UNUSED \<longrightarrow>
        v \<in> set (slot_values (elems s)) \<and>
        (\<forall>j<m. \<forall>k. ?ks ! j = Some k \<and> key_net_idx k = n \<longrightarrow> key_app_idx k \<noteq> v)"
    by simp_all
  from ih(6) m have at: "p_app_keys s0 ! m = ?ks ! m" by simp
  from Suc.prems(2) step s0 obtain key where key: "p_app_keys s0 ! m = Some key"
    by (cases "p_app_keys s0 ! m") (simp_all add: net_key_delete_slot_simps)
  with at have km: "?ks ! m = Some key" by simp
  have occ: "\<forall>j<Suc m. ?ks ! j \<noteq> None" using ih(4) km by (auto simp: less_Suc_eq)
  show ?case
  proof (cases "key_net_idx key = n")
    case False
    with Suc.prems(2) step s0 key have eq: "s1 = s0" by (simp add: net_key_delete_slot_simps)
    have rows: "\<forall>j<length ?ks. p_app_keys s1 ! j =
        (if j < Suc m then cascade_row n (?ks ! j) else ?ks ! j)"
      using ih(6) km False by (auto simp: eq less_Suc_eq cascade_row_def)
    have vals: "\<forall>v \<in> set (slot_values (elems s1)). v \<noteq> BLE_MESH_KEY_UNUSED \<longrightarrow>
        v \<in> set (slot_values (elems s)) \<and>
        (\<forall>j<Suc m. \<forall>k. ?ks ! j = Some k \<and> key_net_idx k = n \<longrightarrow> key_app_idx k \<noteq> v)"
      using ih(7) km False by (auto simp: eq less_Suc_eq)
    from ih(1,2,3,5) occ rows vals show ?thesis unfolding eq by blast
  next
    case True
    have live0: "provisioner_check_net_idx n False s0 = None"
      using live ih(1) by (simp add: provisioner_check_net_idx_def)
    have before: "\<forall>j<m. \<not> slot_has (\<lambda>k. key_net_idx k = n) (p_app_keys s0) j"
      using ih(6) m by (auto simp: slot_has_def cascade_row_def split: option.splits)
    from m ih(5) have m0: "m < length (p_app_keys s0)" by simp
    from app_key_delete_hit[OF live0 m0 key True refl before]
    have del: "bt_mesh_provisioner_local_app_key_delete n (key_app_idx key) s0 =
       (Inr (), s0\<lparr>elems := bt_mesh_model_foreach (\<lambda>m. model_unbind m (key_app_idx key)) (elems s0),
                  p_app_keys := (p_app_keys s0)[m := None]\<rparr>)" .
    from Suc.prems(2) step s0 key True del
    have eq: "s1 = s0\<lparr>elems := bt_mesh_model_foreach (\<lambda>m. model_unbind m (key_app_idx key)) (elems s0),
                  p_app_keys := (p_app_keys s0)[m := None]\<rparr>"
      by (simp add: net_key_delete_slot_simps)
    have rows: "\<forall>j<length ?ks. p_app_keys s1 ! j =
        (if j < Suc m then cascade_row n (?ks ! j) else ?ks ! j)"
      using ih(5,6) km True m by (auto simp: eq less_Suc_eq cascade_row_def nth_list_update)
    have vals: "\<forall>v \<in> set (slot_values (elems s1)). v \<noteq> BLE_MESH_KEY_UNUSED \<longrightarrow>
        v \<in> set (slot_values (elems s)) \<and>
        (\<forall>j<Suc m. \<forall>k. ?ks ! j = Some k \<and> key_net_idx k = n \<longrightarrow> key_app_idx k \<noteq> v)"
    proof (intro ballI impI)
      fix v assume v: "v \<in> set (slot_values (elems s1))" "v \<noteq> BLE_MESH_KEY_UNUSED"
      from v(1) have "v \<in> (\<lambda>k. if k = key_app_idx key then BLE_MESH_KEY_UNUSED else k) `
                         set (slot_values (elems s0))"
        by (simp add: eq slot_values_unbind)
      with v(2) have v0: "v \<in> set (slot_values (elems s0))" "v \<noteq> key_app_idx key"
        by (auto split: if_splits)
      with ih(7) v(2) have "v \<in> set (slot_values (elems s))"
        "\<forall>j<m. \<forall>k. ?ks ! j = Some k \<and> key_net_idx k = n \<longrightarrow> key_app_idx k \<noteq> v" by blast+
      with v0(2) km show "v \<in> set (slot_values (elems s)) \<and>
        (\<forall>j<Suc m. \<forall>k. ?ks ! j = Some k \<and> key_net_idx k = n \<longrightarrow> key_app_idx k \<noteq> v)"
        by (auto simp: less_Suc_eq)
    qed
    have others: "p_sub s1 = p_sub s" "p_net_idx_next s1 = p_net_idx_next s"
      "p_app_idx_next s1 = p_app_idx_next s" "length (p_app_keys s1) = length ?ks"
      using ih(1,2,3,5) by (simp_all add: eq)
    from others occ rows vals show ?thesis by blast
  qed
qed

lemma cascade_total:
  assumes live: "provisioner_check_net_idx n False s = None"
  shows "m \<le> length (p_app_keys s) \<Longrightarrow> \<forall>j<m. p_app_keys s ! j \<noteq> None \<Longrightarrow>
     \<exists>s1. fold (net_key_delete_slot n) [0..<m] (Some s) = Some s1"
proof (induction m)
  case 0
  then show ?case by simp
next
  case (Suc m)
  then obtain s0 where s0: "fold (net_key_delete_slot n) [0..<m] (Some s) = Some s0"
    by auto
  from Suc.prems have m: "m < length (p_app_keys s)" "p_app_keys s ! m \<noteq> None" by simp_all
  from cascade_upto[OF live _ s0] m(1) have "p_app_keys s0 ! m = p_app_keys s ! m" by simp
  with m(2) obtain key where "p_app_keys s0 ! m = Some key" by auto
  with s0 show ?case by (simp add: net_key_delete_slot_simps)
qed

lemma net_idx_live_first_slot:
  "provisioner_check_net_idx n False s = None \<Longrightarrow>
   \<exists>i. first_slot (\<lambda>sub. sub_net_idx sub = n) (p_sub s) = Some i"
  using first_slot_None[of "\<lambda>sub. sub_net_idx sub = n" "p_sub s"]
  by (auto simp: provisioner_check_net_idx_def split: if_splits)

text \<open>
  The network key delete returns when the subnet is live and every row of
  \<open>p_app_keys\<close> is occupied; with a live subnet and an empty row it reads through the
  null pointer.
\<close>

lemma net_key_delete_returns:
  assumes "provisioner_check_net_idx n False s = None" "None \<notin> set (p_app_keys s)"
  shows "\<exists>s'. bt_mesh_provisioner_local_net_key_delete n s = Some (Inr (), s')"
proof -
  from net_idx_live_first_slot[OF assms(1)] obtain i
    where i: "first_slot (\<lambda>sub. sub_net_idx sub = n) (p_sub s) = Some i" by blast
  have "\<forall>j<length (p_app_keys s). p_app_keys s ! j \<noteq> None"
    using assms(2) by (metis nth_mem)
  from cascade_total[OF assms(1) order_refl this] obtain s1
    where "net_key_delete_app_keys n s = Some s1" by (auto simp: net_key_delete_app_keys_def)
  with assms(1) i show ?thesis
    by (simp add: bt_mesh_provisioner_local_net_key_delete_def)
qed

lemma net_key_delete_null_slot:
  assumes "provisioner_check_net_idx n False s = None" "None \<in> set (p_app_keys s)"
  shows "bt_mesh_provisioner_local_net_key_delete n s = None"
proof -
  from net_idx_live_first_slot[OF assms(1)] obtain i
    where i: "first_slot (\<lambda>sub. sub_net_idx sub = n) (p_sub s) = Some i" by blast
  have "net_key_delete_app_keys n s = None"
  proof (rule ccontr)
    assume "net_key_delete_app_keys n s \<noteq> None"
    then obtain s1 where "fold (net_key_delete_slot n) [0..<length (p_app_keys s)] (Some s) = Some s1"
      by (auto simp: net_key_delete_app_keys_def)
    from cascade_upto[OF assms(1) order_refl this]
    have "\<forall>j<length (p_app_keys s). p_app_keys s ! j \<noteq> None" by blast
    with assms(2) show False by (auto simp: in_set_conv_nth)
  qed
  with assms(1) i show ?thesis
    by (simp add: bt_mesh_provisioner_local_net_key_delete_def)
qed

text \<open>
  When \<open>bt_mesh_provisioner_local_net_key_delete\<close> returns 0 for index \<open>n\<close>: no
  live application key has \<open>net_idx = n\<close>; no key slot of any model of any element
  holds the index of an application key of that subnet that was live before the call
  (a slot holding the unused marker references no key); and both already hold in the
  state the inner loop leaves, in which the subnet row is still live: the returned state
  is that state with the subnet row set to null.
\<close>

lemma net_key_delete_cascade:
  assumes "bt_mesh_provisioner_local_net_key_delete n s = Some (Inr (), s')"
  shows "\<not> list_ex (\<lambda>k. key_net_idx k = n) (live (p_app_keys s')) \<and>
         (\<forall>k \<in> set (live (p_app_keys s)).
            key_net_idx k = n \<and> key_app_idx k \<noteq> BLE_MESH_KEY_UNUSED \<longrightarrow>
              key_app_idx k \<notin> set (slot_values (elems s'))) \<and>
         (\<exists>s1 i. net_key_delete_app_keys n s = Some s1 \<and> i < length (p_sub s1) \<and>
            slot_has (\<lambda>sub. sub_net_idx sub = n) (p_sub s1) i \<and>
            \<not> list_ex (\<lambda>k. key_net_idx k = n) (live (p_app_keys s1)) \<and>
            (\<forall>k \<in> set (live (p_app_keys s)).
               key_net_idx k = n \<and> key_app_idx k \<noteq> BLE_MESH_KEY_UNUSED \<longrightarrow>
                 key_app_idx k \<notin> set (slot_values (elems s1))) \<and>
            s' = s1\<lparr>p_sub := (p_sub s1)[i := None]\<rparr>)"
proof -
  let ?ks = "p_app_keys s"
  from assms have live: "provisioner_check_net_idx n False s = None"
    by (auto simp: bt_mesh_provisioner_local_net_key_delete_def split: if_splits)
  from assms live obtain i where i: "first_slot (\<lambda>sub. sub_net_idx sub = n) (p_sub s) = Some i"
    by (cases "first_slot (\<lambda>sub. sub_net_idx sub = n) (p_sub s)")
       (simp_all add: bt_mesh_provisioner_local_net_key_delete_def)
  from assms live i obtain s1 where s1: "net_key_delete_app_keys n s = Some s1"
    and s': "s' = s1\<lparr>p_sub := (p_sub s1)[i := None]\<rparr>"
    by (cases "net_key_delete_app_keys n s")
       (simp_all add: bt_mesh_provisioner_local_net_key_delete_def)
  from s1 have f: "fold (net_key_delete_slot n) [0..<length ?ks] (Some s) = Some s1"
    by (simp add: net_key_delete_app_keys_def)
  from cascade_upto[OF live order_refl f] have inv:
    "p_sub s1 = p_sub s" "length (p_app_keys s1) = length ?ks"
    "\<forall>j<length ?ks. p_app_keys s1 ! j = cascade_row n (?ks ! j)"
    "\<forall>v \<in> set (slot_values (elems s1)). v \<noteq> BLE_MESH_KEY_UNUSED \<longrightarrow>
        (\<forall>j<length ?ks. \<forall>k. ?ks ! j = Some k \<and> key_net_idx k = n \<longrightarrow> key_app_idx k \<noteq> v)"
    by simp_all
  have gone: "\<not> list_ex (\<lambda>k. key_net_idx k = n) (live (p_app_keys s1))"
  proof
    assume "list_ex (\<lambda>k. key_net_idx k = n) (live (p_app_keys s1))"
    then obtain k where k: "Some k \<in> set (p_app_keys s1)" "key_net_idx k = n"
      by (auto simp: list_ex_iff set_live)
    then obtain j where j: "j < length (p_app_keys s1)" "p_app_keys s1 ! j = Some k"
      by (auto simp: in_set_conv_nth)
    with inv(2,3) have "cascade_row n (?ks ! j) = Some k" by simp
    with k(2) show False by (auto simp: cascade_row_def split: option.splits if_splits)
  qed
  have unbound: "\<forall>k \<in> set (live ?ks).
      key_net_idx k = n \<and> key_app_idx k \<noteq> BLE_MESH_KEY_UNUSED \<longrightarrow>
        key_app_idx k \<notin> set (slot_values (elems s1))"
  proof (intro ballI impI)
    fix k assume k: "k \<in> set (live ?ks)"
      "key_net_idx k = n \<and> key_app_idx k \<noteq> BLE_MESH_KEY_UNUSED"
    from k(1) obtain j where j: "j < length ?ks" "?ks ! j = Some k"
      by (auto simp: set_live in_set_conv_nth)
    show "key_app_idx k \<notin> set (slot_values (elems s1))"
    proof
      assume "key_app_idx k \<in> set (slot_values (elems s1))"
      with inv(4) k(2) j show False by blast
    qed
  qed
  from first_slot_Some[OF i] inv(1)
  have row: "i < length (p_sub s1)" "slot_has (\<lambda>sub. sub_net_idx sub = n) (p_sub s1) i"
    by simp_all
  have a: "\<not> list_ex (\<lambda>k. key_net_idx k = n) (live (p_app_keys s'))"
    using gone by (simp add: s')
  have b: "\<forall>k \<in> set (live ?ks).
      key_net_idx k = n \<and> key_app_idx k \<noteq> BLE_MESH_KEY_UNUSED \<longrightarrow>
        key_app_idx k \<notin> set (slot_values (elems s'))"
    using unbound by (simp add: s')
  from a b s1 row gone unbound s' show ?thesis by blast
qed

lemma ex_keystore_full_simps:
  "p_sub ex_keystore_full = [Some (ex_subnet 0 1), Some (ex_subnet 1 2), None]"
  "p_app_keys ex_keystore_full = [Some (ex_app_key 1 5 9), Some (ex_app_key 0 6 8)]"
  by (simp_all add: ex_keystore_full_def ex_keystore_def)

lemma net_key_delete_cascade_example:
  "\<exists>s'. bt_mesh_provisioner_local_net_key_delete 1 ex_keystore_full = Some (Inr (), s') \<and>
         \<not> list_ex (\<lambda>k. key_net_idx k = 1) (live (p_app_keys s')) \<and>
         5 \<notin> set (slot_values (elems s'))"
proof -
  have live: "provisioner_check_net_idx 1 False ex_keystore_full = None"
    by (simp add: provisioner_check_net_idx_def ex_keystore_full_simps ex_subnet_simps)
  have occ: "None \<notin> set (p_app_keys ex_keystore_full)"
    by (simp add: ex_keystore_full_simps)
  from net_key_delete_returns[OF live occ] obtain s'
    where r: "bt_mesh_provisioner_local_net_key_delete 1 ex_keystore_full = Some (Inr (), s')"
    by blast
  have k: "ex_app_key 1 5 9 \<in> set (live (p_app_keys ex_keystore_full))"
    "key_net_idx (ex_app_key 1 5 9) = 1 \<and> key_app_idx (ex_app_key 1 5 9) \<noteq> BLE_MESH_KEY_UNUSED"
    by (simp_all add: ex_keystore_full_simps ex_app_key_simps BLE_MESH_KEY_UNUSED_def)
  from net_key_delete_cascade[OF r] have
    a: "\<not> list_ex (\<lambda>k. key_net_idx k = 1) (live (p_app_keys s'))" and
    b: "\<forall>k \<in> set (live (p_app_keys ex_keystore_full)).
            key_net_idx k = 1 \<and> key_app_idx k \<noteq> BLE_MESH_KEY_UNUSED \<longrightarrow>
              key_app_idx k \<notin> set (slot_values (elems s'))"
    by blast+
  from b k have "key_app_idx (ex_app_key 1 5 9) \<notin> set (slot_values (elems s'))" by blast
  then have "5 \<notin> set (slot_values (elems s'))" by (simp add: ex_app_key_simps)
  with r a show ?thesis by blast
qed

text \<open>
  C1. The cascade is complete in every call that returns, but the call returns only when
  every row of \<open>p_app_keys\<close> is occupied. Here subnet 1 is live, its application key
  is in row 0 and row 1 is null: the inner loop reads \<open>key->net_idx\<close> through the null
  pointer of row 1, and the call does not return. The other scans of \<open>p_app_keys\<close>
  test the pointer before they read through it.
\<close>

theorem net_key_delete_null_pointer:
  "provisioner_check_net_idx 1 False ex_keystore = None \<and>
   p_app_keys ex_keystore = [Some (ex_app_key 1 5 9), None] \<and>
   bt_mesh_provisioner_local_net_key_delete 1 ex_keystore = None"
proof -
  have live: "provisioner_check_net_idx 1 False ex_keystore = None"
    by (simp add: provisioner_check_net_idx_def ex_keystore_simps ex_subnet_simps)
  have "None \<in> set (p_app_keys ex_keystore)" by (simp add: ex_keystore_simps)
  from net_key_delete_null_slot[OF live this] live show ?thesis
    by (simp add: ex_keystore_simps)
qed

end
